theory Spec2Isabelle
  imports Main
begin

section \<open>The HVPS test window (src/gui/hvps_test_window.py)\<close>

text \<open>
  The class \<open>HVPSTestWindow\<close> is embedded as a record of its attributes and one function
  per method, each taking the window and returning the window it leaves behind. The
  methods are Qt slots: an exception raised in one ends that slot only, and the
  attributes assigned before the raise stay assigned. An outcome therefore carries the
  window in both cases.
\<close>

subsection \<open>The device collaborator\<close>

text \<open>Every call the window makes on \<open>self.hvps\<close>, in the order it is made.\<close>

datatype call =
    GetState
  | SetVoltage string string
  | GetVoltage string
  | SetSolenoidCurrent string
  | GetCurrent string
  | EnableHighVoltage
  | DisableHighVoltage
  | EnableSolenoidCurrent
  | DisableSolenoidCurrent

text \<open>
  Modelled from the spec: the class \<open>HVPSv3\<close> of \<open>src/hvps/hvps_api.py\<close>, which is not
  among the sources. The spec gives its contract only (section 6): three queries that
  return a string and six commands whose result is not used. The device is a parameter
  of every method below: what a query answers is any function of the calls the device
  has received so far.
\<close>

record hvps =
  get_state :: "call list \<Rightarrow> string"
  get_voltage :: "call list \<Rightarrow> string \<Rightarrow> string"
  get_current :: "call list \<Rightarrow> string \<Rightarrow> string"

subsection \<open>The window\<close>

text \<open>
  The entries of \<open>self.test_stages\<close> are the seven bound methods \<open>create_*_test_gui\<close>;
  a stage names one of them.
\<close>

datatype stage = Beam | Ext | Lens1 | Lens2 | Lens3 | Lens4 | Sol

datatype error = AttributeError | IndexError | KeyError

datatype widget =
    No_widget
  | Hv_button nat
  | Current_button nat
  | Line_edit nat
  | Next_btn

type_synonym results = "string \<rightharpoonup> string list"

text \<open>
  A push button is its enabled flag; a line edit is its enabled flag and its text.
  \<open>hv_buttons\<close>, \<open>current_buttons\<close> and \<open>line_edits\<close> are the attributes of these names;
  \<open>channel = None\<close> and \<open>back_next_layout = False\<close> say that the attribute has not been
  assigned yet. \<open>layout_filled\<close> says that the widgets of the last screen built are
  still in the layout (\<open>clear_layout\<close> deletes them). \<open>calls\<close> is the log of the device,
  \<open>test_complete\<close> and \<open>window_closed\<close> are what the two signals have emitted, and
  \<open>is_closed\<close> says that the base class has handled a close event.
\<close>

record window =
  occupied_channels :: "string list"
  test_stages :: "stage list"
  readbacks :: results
  measurements :: results
  back_button_pressed :: bool
  current_stage_index :: int
  channel :: "string option"
  hv_buttons :: "bool list"
  current_buttons :: "bool list"
  line_edits :: "(bool \<times> string) list"
  back_btn :: bool
  back_next_layout :: bool
  layout_filled :: bool
  focus :: widget
  calls :: "call list"
  test_complete :: "(results \<times> results) list"
  window_closed :: nat
  is_closed :: bool

datatype outcome = Done window | Raised error window

fun state_of :: "outcome \<Rightarrow> window" where
  "state_of (Done w) = w"
| "state_of (Raised e w) = w"

fun and_then :: "outcome \<Rightarrow> (window \<Rightarrow> outcome) \<Rightarrow> outcome" where
  "and_then (Done w) f = f w"
| "and_then (Raised e w) f = Raised e w"

definition test_voltages :: "string list" where
  "test_voltages = [''100'', ''500'', ''1000'']"

definition test_currents :: "string list" where
  "test_currents = [''0.3'', ''1.2'', ''2.5'']"

definition hv_channels :: "string list" where
  "hv_channels = [''BM'', ''EX'', ''L1'', ''L2'', ''L3'', ''L4'']"

text \<open>One call on \<open>self.hvps\<close>: the device receives it.\<close>

definition hvps_call :: "call \<Rightarrow> window \<Rightarrow> window" where
  "hvps_call c w = w\<lparr>calls := calls w @ [c]\<rparr>"

subsection \<open>Decoding the state token\<close>

definition get_hv_enable_state :: "hvps \<Rightarrow> window \<Rightarrow> bool \<times> window" where
  "get_hv_enable_state dev w =
     (let state = get_state dev (calls w);
          w' = hvps_call GetState w
      in if state = ''STATE0000'' \<or> state = ''STATE0010'' then (False, w') else (True, w'))"

definition get_sol_enable_state :: "hvps \<Rightarrow> window \<Rightarrow> bool \<times> window" where
  "get_sol_enable_state dev w =
     (let state = get_state dev (calls w);
          w' = hvps_call GetState w
      in if state = ''STATE0000'' \<or> state = ''STATE0001'' then (False, w') else (True, w'))"

subsection \<open>Closing the window\<close>

text \<open>
  The two guarded blocks below stand verbatim in \<open>closeEvent\<close>, \<open>handle_back_btn\<close> and
  \<open>handle_next_btn\<close>. The first reads \<open>self.channel\<close> after it has disabled the high
  voltage, so an unassigned attribute raises there.
\<close>

definition hv_off_block :: "hvps \<Rightarrow> window \<Rightarrow> outcome" where
  "hv_off_block dev w =
     (case get_hv_enable_state dev w of
        (True, w1) \<Rightarrow>
          (let w2 = hvps_call DisableHighVoltage w1
           in case channel w2 of
                None \<Rightarrow> Raised AttributeError w2
              | Some ch \<Rightarrow> Done (hvps_call (SetVoltage ch ''0'') w2))
      | (False, w1) \<Rightarrow> Done w1)"

definition sol_off_block :: "hvps \<Rightarrow> window \<Rightarrow> window" where
  "sol_off_block dev w =
     (case get_sol_enable_state dev w of
        (True, w1) \<Rightarrow> hvps_call (SetSolenoidCurrent ''0'') (hvps_call DisableSolenoidCurrent w1)
      | (False, w1) \<Rightarrow> w1)"

definition closeEvent :: "hvps \<Rightarrow> window \<Rightarrow> outcome" where
  "closeEvent dev w =
     and_then (hv_off_block dev w) (\<lambda>w1.
       let w2 = sol_off_block dev w1
       in Done (w2\<lparr>window_closed := window_closed w2 + 1, is_closed := True\<rparr>))"

subsection \<open>Building a screen\<close>

fun stage_channel :: "stage \<Rightarrow> string" where
  "stage_channel Beam = ''BM''"
| "stage_channel Ext = ''EX''"
| "stage_channel Lens1 = ''L1''"
| "stage_channel Lens2 = ''L2''"
| "stage_channel Lens3 = ''L3''"
| "stage_channel Lens4 = ''L4''"
| "stage_channel Sol = ''SL''"

text \<open>
  The loop over \<open>zip(self.line_edits, self.measurements[self.channel])\<close> and the
  \<open>setEnabled(False)\<close> calls after it: a new line edit is enabled and empty; it gets
  the stored measurement unless that is one of the two sentinels, and is then disabled.
\<close>

definition prefill :: "nat \<Rightarrow> string list \<Rightarrow> (bool \<times> string) list" where
  "prefill n ms =
     map (\<lambda>i. (False,
            if i < length ms \<and> ms ! i \<notin> set [''unmeasured'', ''N/I''] then ms ! i else ''''))
       [0..<n]"

text \<open>
  The six methods for the voltage channels differ in the channel, the texts and the
  photo, and \<open>create_beam_test_gui\<close> alone disables the Back button.
\<close>

definition create_hv_test_gui :: "string \<Rightarrow> bool \<Rightarrow> window \<Rightarrow> outcome" where
  "create_hv_test_gui ch back_enabled w =
     (let w1 = w\<lparr>channel := Some ch, hv_buttons := replicate 6 True,
                   line_edits := replicate 6 (True, [])\<rparr>
      in case measurements w1 ch of
           None \<Rightarrow> Raised KeyError w1
         | Some ms \<Rightarrow>
             Done (w1\<lparr>line_edits := prefill 6 ms,
                      back_button_pressed := False,
                      back_btn := back_enabled,
                      back_next_layout := True,
                      layout_filled := True,
                      focus := Hv_button 0\<rparr>))"

definition create_beam_test_gui :: "window \<Rightarrow> outcome" where
  "create_beam_test_gui = create_hv_test_gui ''BM'' False"

definition create_ext_test_gui :: "window \<Rightarrow> outcome" where
  "create_ext_test_gui = create_hv_test_gui ''EX'' True"

definition create_L1_test_gui :: "window \<Rightarrow> outcome" where
  "create_L1_test_gui = create_hv_test_gui ''L1'' True"

definition create_L2_test_gui :: "window \<Rightarrow> outcome" where
  "create_L2_test_gui = create_hv_test_gui ''L2'' True"

definition create_L3_test_gui :: "window \<Rightarrow> outcome" where
  "create_L3_test_gui = create_hv_test_gui ''L3'' True"

definition create_L4_test_gui :: "window \<Rightarrow> outcome" where
  "create_L4_test_gui = create_hv_test_gui ''L4'' True"

text \<open>The solenoid screen leaves \<open>back_button_pressed\<close> as it finds it.\<close>

definition create_sol_test_gui :: "window \<Rightarrow> outcome" where
  "create_sol_test_gui w =
     (let w1 = w\<lparr>channel := Some ''SL'', current_buttons := replicate 3 True,
                   line_edits := replicate 3 (True, [])\<rparr>
      in case measurements w1 ''SL'' of
           None \<Rightarrow> Raised KeyError w1
         | Some ms \<Rightarrow>
             Done (w1\<lparr>line_edits := prefill 3 ms,
                      back_btn := True,
                      back_next_layout := True,
                      layout_filled := True,
                      focus := Current_button 0\<rparr>))"

fun call_stage :: "stage \<Rightarrow> window \<Rightarrow> outcome" where
  "call_stage Beam = create_beam_test_gui"
| "call_stage Ext = create_ext_test_gui"
| "call_stage Lens1 = create_L1_test_gui"
| "call_stage Lens2 = create_L2_test_gui"
| "call_stage Lens3 = create_L3_test_gui"
| "call_stage Lens4 = create_L4_test_gui"
| "call_stage Sol = create_sol_test_gui"

subsection \<open>The sequencer\<close>

text \<open>
  \<open>clear_layout([self.back_next_layout, self.main_layout])\<close>: the argument list reads
  the attribute \<open>back_next_layout\<close>, which the first screen assigns.
\<close>

definition clear_layout :: "window \<Rightarrow> outcome" where
  "clear_layout w =
     (if back_next_layout w then Done (w\<lparr>layout_filled := False\<rparr>)
      else Raised AttributeError w)"

text \<open>
  Python list indexing: an index from \<open>-len\<close> up to \<open>-1\<close> counts from the end, and an
  index outside \<open>-len .. len - 1\<close> raises \<open>IndexError\<close>.
\<close>

definition py_index :: "'a list \<Rightarrow> int \<Rightarrow> 'a option" where
  "py_index xs i =
     (if 0 \<le> i \<and> i < int (length xs) then Some (xs ! nat i)
      else if - int (length xs) \<le> i \<and> i < 0 then Some (xs ! nat (int (length xs) + i))
      else None)"

text \<open>
  \<open>load_current_stage\<close>. In the last branch \<open>self.close()\<close> makes Qt send the window its
  close event, so \<open>closeEvent\<close> runs before \<open>load_current_stage\<close> returns.
\<close>

definition load_current_stage :: "hvps \<Rightarrow> window \<Rightarrow> outcome" where
  "load_current_stage dev w =
     (if current_stage_index w < int (length (test_stages w)) then
        and_then (if back_button_pressed w then clear_layout w else Done w) (\<lambda>w1.
        and_then (if current_stage_index w1 > 0 \<and> \<not> back_button_pressed w1
                  then clear_layout w1 else Done w1) (\<lambda>w2.
          case py_index (test_stages w2) (current_stage_index w2) of
            None \<Rightarrow> Raised IndexError w2
          | Some st \<Rightarrow> call_stage st w2))
      else
        closeEvent dev (w\<lparr>test_complete := test_complete w @ [(readbacks w, measurements w)]\<rparr>))"

definition append_stage :: "string \<Rightarrow> stage \<Rightarrow> window \<Rightarrow> window" where
  "append_stage ch st w =
     (if ch \<in> set (occupied_channels w) then w\<lparr>test_stages := test_stages w @ [st]\<rparr> else w)"

definition test_plan :: "hvps \<Rightarrow> window \<Rightarrow> outcome" where
  "test_plan dev w =
     (let w1 = append_stage ''BM'' Beam w;
          w2 = append_stage ''EX'' Ext w1;
          w3 = append_stage ''L1'' Lens1 w2;
          w4 = append_stage ''L2'' Lens2 w3;
          w5 = append_stage ''L3'' Lens3 w4;
          w6 = append_stage ''L4'' Lens4 w5;
          w7 = append_stage ''SL'' Sol w6
      in load_current_stage dev (w7\<lparr>current_stage_index := 0\<rparr>))"

definition not_installed :: results where
  "not_installed =
     [''BM'' \<mapsto> replicate 6 ''N/I'',
      ''EX'' \<mapsto> replicate 6 ''N/I'',
      ''L1'' \<mapsto> replicate 6 ''N/I'',
      ''L2'' \<mapsto> replicate 6 ''N/I'',
      ''L3'' \<mapsto> replicate 6 ''N/I'',
      ''L4'' \<mapsto> replicate 6 ''N/I'',
      ''SL'' \<mapsto> replicate 3 ''N/I'']"

text \<open>
  \<open>__init__\<close>. The attributes that a later method assigns first (\<open>channel\<close>, the widget
  lists, \<open>back_next_layout\<close>) start unassigned; the device has received nothing from
  this window yet, so its log starts with what it had received before.
\<close>

definition init :: "hvps \<Rightarrow> call list \<Rightarrow> string list \<Rightarrow> outcome" where
  "init dev log occ =
     test_plan dev
       \<lparr>occupied_channels = occ,
        test_stages = [],
        readbacks = not_installed,
        measurements = not_installed,
        back_button_pressed = False,
        current_stage_index = 0,
        channel = None,
        hv_buttons = [],
        current_buttons = [],
        line_edits = [],
        back_btn = False,
        back_next_layout = False,
        layout_filled = False,
        focus = No_widget,
        calls = log,
        test_complete = [],
        window_closed = 0,
        is_closed = False\<rparr>"

subsection \<open>Disable, Back and Next\<close>

definition handle_disable_hv_btn :: "hvps \<Rightarrow> window \<Rightarrow> outcome" where
  "handle_disable_hv_btn dev w =
     (case get_hv_enable_state dev w of
        (hv, w1) \<Rightarrow>
          (let w2 = (if hv then hvps_call DisableHighVoltage w1 else w1)
           in case channel w2 of
                None \<Rightarrow> Raised AttributeError w2
              | Some ch \<Rightarrow> Done (hvps_call (SetVoltage ch ''0'') w2)))"

definition handle_disable_sol_btn :: "hvps \<Rightarrow> window \<Rightarrow> outcome" where
  "handle_disable_sol_btn dev w =
     (case get_sol_enable_state dev w of
        (sol, w1) \<Rightarrow> Done (if sol then hvps_call DisableSolenoidCurrent w1 else w1))"

definition handle_back_btn :: "hvps \<Rightarrow> window \<Rightarrow> outcome" where
  "handle_back_btn dev w =
     and_then (hv_off_block dev (w\<lparr>back_button_pressed := True\<rparr>)) (\<lambda>w1.
       let w2 = sol_off_block dev w1
       in load_current_stage dev (w2\<lparr>current_stage_index := current_stage_index w2 - 1\<rparr>))"

definition handle_next_btn :: "hvps \<Rightarrow> window \<Rightarrow> outcome" where
  "handle_next_btn dev w =
     and_then (hv_off_block dev w) (\<lambda>w1.
       let w2 = sol_off_block dev w1
       in load_current_stage dev (w2\<lparr>current_stage_index := current_stage_index w2 + 1\<rparr>))"

subsection \<open>The test buttons\<close>

text \<open>
  \<open>set_enabled k b\<close> is \<open>setEnabled(b)\<close> on the \<open>k\<close>-th line edit of the screen; the
  text stays. \<open>disable_others k\<close> is the loop over \<open>self.hv_buttons\<close> that skips the
  button pressed.
\<close>

definition set_enabled :: "nat \<Rightarrow> bool \<Rightarrow> (bool \<times> string) list \<Rightarrow> (bool \<times> string) list" where
  "set_enabled k b les = (if k < length les then les[k := (b, snd (les ! k))] else les)"

definition disable_others :: "nat \<Rightarrow> bool list \<Rightarrow> bool list" where
  "disable_others k bs = map (\<lambda>(j, b). if j = k then b else False) (enumerate 0 bs)"

text \<open>
  The six handlers of the voltage buttons differ in the ordinal \<open>k\<close> of the button and
  in the target. The \<open>match\<close> on \<open>self.channel\<close> has a case for each voltage channel and
  none for \<open>'SL'\<close>.
\<close>

definition handle_test_hv_btn :: "nat \<Rightarrow> string \<Rightarrow> hvps \<Rightarrow> window \<Rightarrow> outcome" where
  "handle_test_hv_btn k voltage dev w =
     (case channel w of
        None \<Rightarrow> Raised AttributeError w
      | Some ch \<Rightarrow>
          (let w1 = (if ch \<in> set hv_channels
                     then w\<lparr>line_edits := set_enabled k True (line_edits w), focus := Line_edit k\<rparr>
                     else w);
               w2 = w1\<lparr>hv_buttons := disable_others k (hv_buttons w1)\<rparr>;
               w3 = hvps_call (SetVoltage ch voltage) w2
           in case get_hv_enable_state dev w3 of
                (hv_enabled, w4) \<Rightarrow>
                  Done (if \<not> hv_enabled then hvps_call EnableHighVoltage w4 else w4)))"

definition handle_test_pos_100V_btn :: "hvps \<Rightarrow> window \<Rightarrow> outcome" where
  "handle_test_pos_100V_btn = handle_test_hv_btn 0 (test_voltages ! 0)"

definition handle_test_pos_500V_btn :: "hvps \<Rightarrow> window \<Rightarrow> outcome" where
  "handle_test_pos_500V_btn = handle_test_hv_btn 1 (test_voltages ! 1)"

definition handle_test_pos_1kV_btn :: "hvps \<Rightarrow> window \<Rightarrow> outcome" where
  "handle_test_pos_1kV_btn = handle_test_hv_btn 2 (test_voltages ! 2)"

definition handle_test_neg_100V_btn :: "hvps \<Rightarrow> window \<Rightarrow> outcome" where
  "handle_test_neg_100V_btn = handle_test_hv_btn 3 (''-'' @ test_voltages ! 0)"

definition handle_test_neg_500V_btn :: "hvps \<Rightarrow> window \<Rightarrow> outcome" where
  "handle_test_neg_500V_btn = handle_test_hv_btn 4 (''-'' @ test_voltages ! 1)"

definition handle_test_neg_1kV_btn :: "hvps \<Rightarrow> window \<Rightarrow> outcome" where
  "handle_test_neg_1kV_btn = handle_test_hv_btn 5 (''-'' @ test_voltages ! 2)"

text \<open>The three handlers of the current buttons have no loop over the other buttons.\<close>

definition handle_test_sol_current_btn :: "nat \<Rightarrow> string \<Rightarrow> hvps \<Rightarrow> window \<Rightarrow> outcome" where
  "handle_test_sol_current_btn k current dev w =
     (let w1 = w\<lparr>line_edits := set_enabled k True (line_edits w), focus := Line_edit k\<rparr>;
          w2 = hvps_call (SetSolenoidCurrent current) w1
      in case get_sol_enable_state dev w2 of
           (sol_enabled, w3) \<Rightarrow>
             Done (if \<not> sol_enabled then hvps_call EnableSolenoidCurrent w3 else w3))"

definition handle_test_sol_current1_btn :: "hvps \<Rightarrow> window \<Rightarrow> outcome" where
  "handle_test_sol_current1_btn = handle_test_sol_current_btn 0 (test_currents ! 0)"

definition handle_test_sol_current2_btn :: "hvps \<Rightarrow> window \<Rightarrow> outcome" where
  "handle_test_sol_current2_btn = handle_test_sol_current_btn 1 (test_currents ! 1)"

definition handle_test_sol_current3_btn :: "hvps \<Rightarrow> window \<Rightarrow> outcome" where
  "handle_test_sol_current3_btn = handle_test_sol_current_btn 2 (test_currents ! 2)"

subsection \<open>Entering a measurement\<close>

text \<open>
  \<open>d[ch][k] = v\<close> on a dictionary of lists: \<open>KeyError\<close> without the key, \<open>IndexError\<close>
  past the end of the list (\<open>k\<close> is never negative here).
\<close>

definition store :: "results \<Rightarrow> string \<Rightarrow> nat \<Rightarrow> string \<Rightarrow> error + results" where
  "store d ch k v =
     (case d ch of
        None \<Rightarrow> Inl KeyError
      | Some xs \<Rightarrow> if k < length xs then Inr (d(ch \<mapsto> xs[k := v])) else Inl IndexError)"

text \<open>
  The six handlers of the voltage fields differ in the ordinal \<open>k\<close> and in the widget
  that gets the focus at the end. The argument \<open>line_edit\<close> is the \<open>k\<close>-th field of the
  screen, bound when the screen was built.
\<close>

definition handle_hv_entered :: "nat \<Rightarrow> widget \<Rightarrow> hvps \<Rightarrow> window \<Rightarrow> outcome" where
  "handle_hv_entered k nxt dev w =
     (case channel w of
        None \<Rightarrow> Raised AttributeError w
      | Some ch \<Rightarrow>
          (let readback = get_voltage dev (calls w) ch;
               w1 = hvps_call (GetVoltage ch) w;
               measurement = snd (line_edits w1 ! k)
           in case store (readbacks w1) ch k readback of
                Inl e \<Rightarrow> Raised e w1
              | Inr rb \<Rightarrow>
                  (let w2 = w1\<lparr>readbacks := rb\<rparr>
                   in case store (measurements w2) ch k measurement of
                        Inl e \<Rightarrow> Raised e w2
                      | Inr ms \<Rightarrow>
                          (let w3 = w2\<lparr>measurements := ms,
                                       line_edits := set_enabled k False (line_edits w2),
                                       focus := No_widget\<rparr>;
                               w4 = hvps_call (SetVoltage ch ''0'') w3;
                               w5 = hvps_call DisableHighVoltage w4
                           in Done (w5\<lparr>hv_buttons := map (\<lambda>b. True) (hv_buttons w5),
                                        focus := nxt\<rparr>)))))"

definition handle_pos_100V_entered :: "hvps \<Rightarrow> window \<Rightarrow> outcome" where
  "handle_pos_100V_entered = handle_hv_entered 0 (Hv_button 1)"

definition handle_pos_500V_entered :: "hvps \<Rightarrow> window \<Rightarrow> outcome" where
  "handle_pos_500V_entered = handle_hv_entered 1 (Hv_button 2)"

definition handle_pos_1kV_entered :: "hvps \<Rightarrow> window \<Rightarrow> outcome" where
  "handle_pos_1kV_entered = handle_hv_entered 2 (Hv_button 3)"

definition handle_neg_100V_entered :: "hvps \<Rightarrow> window \<Rightarrow> outcome" where
  "handle_neg_100V_entered = handle_hv_entered 3 (Hv_button 4)"

definition handle_neg_500V_entered :: "hvps \<Rightarrow> window \<Rightarrow> outcome" where
  "handle_neg_500V_entered = handle_hv_entered 4 (Hv_button 5)"

definition handle_neg_1kV_entered :: "hvps \<Rightarrow> window \<Rightarrow> outcome" where
  "handle_neg_1kV_entered = handle_hv_entered 5 Next_btn"

definition handle_current_entered :: "nat \<Rightarrow> widget \<Rightarrow> hvps \<Rightarrow> window \<Rightarrow> outcome" where
  "handle_current_entered k nxt dev w =
     (case channel w of
        None \<Rightarrow> Raised AttributeError w
      | Some ch \<Rightarrow>
          (let readback = get_current dev (calls w) ch;
               w1 = hvps_call (GetCurrent ch) w;
               measurement = snd (line_edits w1 ! k)
           in case store (readbacks w1) ch k readback of
                Inl e \<Rightarrow> Raised e w1
              | Inr rb \<Rightarrow>
                  (let w2 = w1\<lparr>readbacks := rb\<rparr>
                   in case store (measurements w2) ch k measurement of
                        Inl e \<Rightarrow> Raised e w2
                      | Inr ms \<Rightarrow>
                          (let w3 = w2\<lparr>measurements := ms,
                                       line_edits := set_enabled k False (line_edits w2),
                                       focus := No_widget\<rparr>;
                               w4 = hvps_call (SetSolenoidCurrent ''0'') w3;
                               w5 = hvps_call DisableSolenoidCurrent w4
                           in Done (w5\<lparr>current_buttons := map (\<lambda>b. True) (current_buttons w5),
                                        focus := nxt\<rparr>)))))"

definition handle_current1_entered :: "hvps \<Rightarrow> window \<Rightarrow> outcome" where
  "handle_current1_entered = handle_current_entered 0 (Current_button 1)"

definition handle_current2_entered :: "hvps \<Rightarrow> window \<Rightarrow> outcome" where
  "handle_current2_entered = handle_current_entered 1 (Current_button 2)"

definition handle_current3_entered :: "hvps \<Rightarrow> window \<Rightarrow> outcome" where
  "handle_current3_entered = handle_current_entered 2 Next_btn"

subsection \<open>What the operator can do\<close>

text \<open>
  The signal connections made when a screen is built. Qt delivers a click only to an
  enabled button and \<open>returnPressed\<close> or typed text only to an enabled line edit;
  a widget that \<open>clear_layout\<close> has deleted, or a window that has been closed, receives
  nothing. \<open>Press_test k\<close> is the \<open>k\<close>-th test button of the screen, \<open>Return_pressed k\<close>
  and \<open>Type_text k s\<close> its \<open>k\<close>-th measurement field. The screen is the one built
  last, whose widgets the attributes refer to. Where a screen is built over a layout
  that was not cleared (Next at a negative index), the widgets of the screen before
  stay underneath; they are left out here.
\<close>

datatype event =
    Press_test nat
  | Type_text nat string
  | Return_pressed nat
  | Press_disable
  | Press_back
  | Press_next
  | Close_window

definition on_sol_screen :: "window \<Rightarrow> bool" where
  "on_sol_screen w = (channel w = Some ''SL'')"

definition hv_test_handlers :: "(hvps \<Rightarrow> window \<Rightarrow> outcome) list" where
  "hv_test_handlers =
     [handle_test_pos_100V_btn, handle_test_pos_500V_btn, handle_test_pos_1kV_btn,
      handle_test_neg_100V_btn, handle_test_neg_500V_btn, handle_test_neg_1kV_btn]"

definition sol_test_handlers :: "(hvps \<Rightarrow> window \<Rightarrow> outcome) list" where
  "sol_test_handlers =
     [handle_test_sol_current1_btn, handle_test_sol_current2_btn, handle_test_sol_current3_btn]"

definition hv_entered_handlers :: "(hvps \<Rightarrow> window \<Rightarrow> outcome) list" where
  "hv_entered_handlers =
     [handle_pos_100V_entered, handle_pos_500V_entered, handle_pos_1kV_entered,
      handle_neg_100V_entered, handle_neg_500V_entered, handle_neg_1kV_entered]"

definition sol_entered_handlers :: "(hvps \<Rightarrow> window \<Rightarrow> outcome) list" where
  "sol_entered_handlers =
     [handle_current1_entered, handle_current2_entered, handle_current3_entered]"

definition test_buttons :: "window \<Rightarrow> bool list" where
  "test_buttons w = (if on_sol_screen w then current_buttons w else hv_buttons w)"

definition field_enabled :: "window \<Rightarrow> nat \<Rightarrow> bool" where
  "field_enabled w k = (k < length (line_edits w) \<and> fst (line_edits w ! k))"

fun deliver :: "hvps \<Rightarrow> event \<Rightarrow> window \<Rightarrow> outcome" where
  "deliver dev (Press_test k) w =
     (if k < length (test_buttons w) \<and> test_buttons w ! k then
        (if on_sol_screen w
         then (if k < 3 then (sol_test_handlers ! k) dev w else Done w)
         else (if k < 6 then (hv_test_handlers ! k) dev w else Done w))
      else Done w)"
| "deliver dev (Type_text k s) w =
     (if field_enabled w k
      then Done (w\<lparr>line_edits := (line_edits w)[k := (True, s)]\<rparr>)
      else Done w)"
| "deliver dev (Return_pressed k) w =
     (if field_enabled w k then
        (if on_sol_screen w
         then (if k < 3 then (sol_entered_handlers ! k) dev w else Done w)
         else (if k < 6 then (hv_entered_handlers ! k) dev w else Done w))
      else Done w)"
| "deliver dev Press_disable w =
     (if on_sol_screen w then handle_disable_sol_btn dev w else handle_disable_hv_btn dev w)"
| "deliver dev Press_back w = (if back_btn w then handle_back_btn dev w else Done w)"
| "deliver dev Press_next w = handle_next_btn dev w"
| "deliver dev Close_window w = closeEvent dev w"

definition fire :: "hvps \<Rightarrow> event \<Rightarrow> window \<Rightarrow> outcome" where
  "fire dev ev w =
     (if is_closed w then Done w
      else if ev = Close_window then closeEvent dev w
      else if layout_filled w then deliver dev ev w
      else Done w)"

text \<open>A session: the constructor, then the operator's events one after the other.\<close>

fun fire_all :: "hvps \<Rightarrow> event list \<Rightarrow> window \<Rightarrow> window" where
  "fire_all dev [] w = w"
| "fire_all dev (ev # evs) w = fire_all dev evs (state_of (fire dev ev w))"

definition session :: "hvps \<Rightarrow> call list \<Rightarrow> string list \<Rightarrow> event list \<Rightarrow> window" where
  "session dev log occ evs = fire_all dev evs (state_of (init dev log occ))"

text \<open>A measurement field is enabled exactly while its test point is armed.\<close>

definition armed :: "window \<Rightarrow> nat list" where
  "armed w = filter (field_enabled w) [0..<length (line_edits w)]"

subsection \<open>A device for running the model\<close>

text \<open>
  A device that keeps the two enables as commanded, answers with the token of the
  docstrings (\<open>'STATE0001'\<close> is high voltage on, \<open>'STATE0010'\<close> solenoid on) and reads
  every target back as it was last set, \<open>'0'\<close> before any command.
\<close>

definition hv_on :: "call list \<Rightarrow> bool" where
  "hv_on log =
     foldl (\<lambda>b c. if c = EnableHighVoltage then True
                   else if c = DisableHighVoltage then False else b) False log"

definition sol_on :: "call list \<Rightarrow> bool" where
  "sol_on log =
     foldl (\<lambda>b c. if c = EnableSolenoidCurrent then True
                   else if c = DisableSolenoidCurrent then False else b) False log"

definition last_voltage :: "call list \<Rightarrow> string \<Rightarrow> string" where
  "last_voltage log ch =
     foldl (\<lambda>v c. case c of SetVoltage ch' v' \<Rightarrow> if ch' = ch then v' else v | _ \<Rightarrow> v) ''0'' log"

definition last_current :: "call list \<Rightarrow> string \<Rightarrow> string" where
  "last_current log ch =
     foldl (\<lambda>v c. case c of SetSolenoidCurrent v' \<Rightarrow> v' | _ \<Rightarrow> v) ''0'' log"

definition bench_hvps :: hvps where
  "bench_hvps =
     \<lparr>get_state = (\<lambda>log. ''STATE00'' @ (if sol_on log then ''1'' else ''0'')
                                     @ (if hv_on log then ''1'' else ''0'')),
      get_voltage = last_voltage,
      get_current = last_current\<rparr>"

subsection \<open>Reading the results and the log\<close>

definition canonical_channels :: "string list" where
  "canonical_channels = [''BM'', ''EX'', ''L1'', ''L2'', ''L3'', ''L4'', ''SL'']"

definition slot_count :: "string \<Rightarrow> nat" where
  "slot_count ch = (if ch = ''SL'' then 3 else 6)"

text \<open>\<open>d[ch][k]\<close> read: \<open>None\<close> where Python raises.\<close>

definition slot :: "results \<Rightarrow> string \<Rightarrow> nat \<Rightarrow> string option" where
  "slot d ch k =
     (case d ch of None \<Rightarrow> None | Some xs \<Rightarrow> if k < length xs then Some (xs ! k) else None)"

text \<open>
  A result mapping has its shape when its keys are the seven channels, with six
  strings under each voltage channel and three under \<open>'SL'\<close>.
\<close>

definition well_shaped :: "results \<Rightarrow> bool" where
  "well_shaped d =
     (dom d = set canonical_channels \<and>
      list_all (\<lambda>ch. map_option length (d ch) = Some (slot_count ch)) canonical_channels)"

text \<open>
  What holds of the window between two events: both mappings have their shape, and
  the screen in the layout, if any, is the screen of \<open>self.channel\<close>, with as many
  test buttons and measurement fields as the channel has test points.
\<close>

definition consistent :: "window \<Rightarrow> bool" where
  "consistent w =
     (well_shaped (readbacks w) \<and> well_shaped (measurements w) \<and>
      (case channel w of
         None \<Rightarrow> \<not> layout_filled w
       | Some ch \<Rightarrow>
           list_ex (\<lambda>c. c = ch) canonical_channels \<and>
           (if layout_filled w
            then length (line_edits w) = slot_count ch \<and>
                 length (test_buttons w) = slot_count ch \<and> back_next_layout w
            else True)))"

text \<open>
  On a voltage screen: while a measurement field is enabled, no other field is, and
  every test button but its own is disabled.
\<close>

definition hv_exclusive :: "window \<Rightarrow> bool" where
  "hv_exclusive w =
     (layout_filled w \<and> \<not> on_sol_screen w \<longrightarrow>
        (\<forall>i j. field_enabled w i \<and> j \<noteq> i \<longrightarrow>
           \<not> field_enabled w j \<and> (j < length (hv_buttons w) \<longrightarrow> \<not> hv_buttons w ! j)))"

text \<open>What the two decoders make of the token the device answers after the calls \<open>log\<close>.\<close>

definition reports_hv_enabled :: "hvps \<Rightarrow> call list \<Rightarrow> bool" where
  "reports_hv_enabled dev log =
     (get_state dev log \<noteq> ''STATE0000'' \<and> get_state dev log \<noteq> ''STATE0010'')"

definition reports_sol_enabled :: "hvps \<Rightarrow> call list \<Rightarrow> bool" where
  "reports_sol_enabled dev log =
     (get_state dev log \<noteq> ''STATE0000'' \<and> get_state dev log \<noteq> ''STATE0001'')"

text \<open>
  The calls of the safety contract (spec, section 4.3) for a device that has received
  \<open>log\<close>, on leaving channel \<open>ch\<close>: the state is asked for; if it reports the high
  voltage enabled, the high voltage is disabled and then the target of \<open>ch\<close> is set to
  \<open>'0'\<close>; the state is asked for again; if it reports the solenoid enabled, the
  solenoid current is disabled and then its target is set to \<open>'0'\<close>.
\<close>

definition hv_quiesce :: "hvps \<Rightarrow> call list \<Rightarrow> string \<Rightarrow> call list" where
  "hv_quiesce dev log ch =
     GetState # (if reports_hv_enabled dev log
                 then [DisableHighVoltage, SetVoltage ch ''0''] else [])"

definition sol_quiesce :: "hvps \<Rightarrow> call list \<Rightarrow> call list" where
  "sol_quiesce dev log =
     GetState # (if reports_sol_enabled dev log
                 then [DisableSolenoidCurrent, SetSolenoidCurrent ''0''] else [])"

definition safety_contract :: "hvps \<Rightarrow> call list \<Rightarrow> string \<Rightarrow> call list" where
  "safety_contract dev log ch =
     hv_quiesce dev log ch @ sol_quiesce dev (log @ hv_quiesce dev log ch)"

subsection \<open>Windows for running the model\<close>

text \<open>
  The beam channel alone is installed, the solenoid output was left on by an earlier
  user of the device, and the operator has pressed the fifth test button (-500 V).
\<close>

definition beam_armed :: window where
  "beam_armed = session bench_hvps [EnableSolenoidCurrent] [''BM''] [Press_test 4]"

text \<open>
  The beam channel and the solenoid are installed, every output is off, and the
  operator has not touched the first screen yet.
\<close>

definition beam_idle :: window where
  "beam_idle = session bench_hvps [] [''BM'', ''SL''] []"



section \<open>Properties\<close>

subsection \<open>What every method leaves alone\<close>

lemmas enable_defs = get_hv_enable_state_def get_sol_enable_state_def hvps_call_def Let_def

lemmas create_gui_defs =
  create_beam_test_gui_def create_ext_test_gui_def create_L1_test_gui_def
  create_L2_test_gui_def create_L3_test_gui_def create_L4_test_gui_def
  create_hv_test_gui_def create_sol_test_gui_def

lemma state_of_and_then:
  "state_of (and_then r f) = (case r of Done w \<Rightarrow> state_of (f w) | Raised e w \<Rightarrow> w)"
  by (cases r) simp_all

lemma hv_off_block_stages [simp]:
  "test_stages (state_of (hv_off_block dev w)) = test_stages w"
  by (simp add: hv_off_block_def enable_defs split: option.splits)

lemma sol_off_block_stages [simp]:
  "test_stages (sol_off_block dev w) = test_stages w"
  by (simp add: sol_off_block_def enable_defs)

lemma closeEvent_stages [simp]:
  "test_stages (state_of (closeEvent dev w)) = test_stages w"
proof (cases "hv_off_block dev w")
  case (Done w1)
  from hv_off_block_stages [of dev w] Done have "test_stages w1 = test_stages w" by simp
  with Done show ?thesis by (simp add: closeEvent_def Let_def)
next
  case (Raised e w1)
  from hv_off_block_stages [of dev w] Raised have "test_stages w1 = test_stages w" by simp
  with Raised show ?thesis by (simp add: closeEvent_def)
qed

lemma call_stage_stages [simp]:
  "test_stages (state_of (call_stage st w)) = test_stages w"
  by (cases st) (simp_all add: create_gui_defs Let_def split: option.splits)

lemma load_current_stage_stages [simp]:
  "test_stages (state_of (load_current_stage dev w)) = test_stages w"
  by (simp add: load_current_stage_def state_of_and_then clear_layout_def
        split: outcome.splits option.splits)

lemma append_stage_occupied [simp]:
  "occupied_channels (append_stage ch st w) = occupied_channels w"
  by (simp add: append_stage_def)

lemma append_stage_stages:
  "stage_channel st = ch \<Longrightarrow>
   test_stages (append_stage ch st w) =
     test_stages w @ filter (\<lambda>s. stage_channel s \<in> set (occupied_channels w)) [st]"
  by (auto simp add: append_stage_def)

subsection \<open>The stage list\<close>

lemma init_test_stages:
  "test_stages (state_of (init dev log occ)) =
     filter (\<lambda>st. stage_channel st \<in> set occ) [Beam, Ext, Lens1, Lens2, Lens3, Lens4, Sol]"
proof -
  have "test_stages (state_of (init dev log occ)) =
          filter (\<lambda>s. stage_channel s \<in> set occ) [Beam] @
          filter (\<lambda>s. stage_channel s \<in> set occ) [Ext] @
          filter (\<lambda>s. stage_channel s \<in> set occ) [Lens1] @
          filter (\<lambda>s. stage_channel s \<in> set occ) [Lens2] @
          filter (\<lambda>s. stage_channel s \<in> set occ) [Lens3] @
          filter (\<lambda>s. stage_channel s \<in> set occ) [Lens4] @
          filter (\<lambda>s. stage_channel s \<in> set occ) [Sol]"
    by (simp add: init_def test_plan_def Let_def append_stage_stages del: filter.simps)
  then show ?thesis
    by (simp only: filter_append [symmetric] append_Cons append_Nil)
qed

text \<open>
  C4. The stage list that the constructor builds is the canonical order Beam, Ext,
  Lens 1 to 4, Solenoid (channels BM, EX, L1, L2, L3, L4, SL) filtered down to the
  stages whose channel is among the occupied channels. The right-hand side mentions
  the occupied channels only as a set, and neither the device nor its log: the list
  is a function of the occupancy set alone.
\<close>

theorem test_plan_canonical_order:
  "test_stages (state_of (init dev log occ)) =
     filter (\<lambda>st. stage_channel st \<in> set occ) [Beam, Ext, Lens1, Lens2, Lens3, Lens4, Sol]"
  by (rule init_test_stages)

theorem test_plan_canonical_order_witness:
  "test_stages (state_of (init bench_hvps [] [''SL'', ''XX'', ''EX'', ''SL''])) = [Ext, Sol]"
  using test_plan_canonical_order [of bench_hvps "[]" "[''SL'', ''XX'', ''EX'', ''SL'']"]
  by simp

subsection \<open>The state token\<close>

text \<open>
  C9. \<open>get_hv_enable_state\<close> returns False exactly when the token that the device
  answers is \<open>'STATE0000'\<close> or \<open>'STATE0010'\<close>, and True for every other string;
  \<open>get_sol_enable_state\<close> returns False exactly for \<open>'STATE0000'\<close> or \<open>'STATE0001'\<close>.
\<close>

theorem get_enable_state_decodes:
  "(fst (get_hv_enable_state dev w) = False) =
     (get_state dev (calls w) = ''STATE0000'' \<or> get_state dev (calls w) = ''STATE0010'')
   \<and> (fst (get_sol_enable_state dev w) = False) =
     (get_state dev (calls w) = ''STATE0000'' \<or> get_state dev (calls w) = ''STATE0001'')"
  by (simp add: get_hv_enable_state_def get_sol_enable_state_def Let_def)

subsection \<open>Leaving a channel\<close>

lemma hv_off_block_on_channel:
  "channel w = Some ch \<Longrightarrow>
   hv_off_block dev w = Done (w\<lparr>calls := calls w @ hv_quiesce dev (calls w) ch\<rparr>)"
  by (simp add: hv_off_block_def enable_defs reports_hv_enabled_def hv_quiesce_def)

lemma sol_off_block_eq:
  "sol_off_block dev w = w\<lparr>calls := calls w @ sol_quiesce dev (calls w)\<rparr>"
  by (simp add: sol_off_block_def enable_defs reports_sol_enabled_def sol_quiesce_def)

lemma leave_channel:
  "channel w = Some ch \<Longrightarrow>
   and_then (hv_off_block dev w) (\<lambda>w1. f (sol_off_block dev w1)) =
     f (w\<lparr>calls := calls w @ safety_contract dev (calls w) ch\<rparr>)"
  by (simp add: hv_off_block_on_channel sol_off_block_eq safety_contract_def)

lemma closeEvent_on_channel:
  "channel w = Some ch \<Longrightarrow>
   closeEvent dev w =
     Done (w\<lparr>calls := calls w @ safety_contract dev (calls w) ch,
             window_closed := window_closed w + 1, is_closed := True\<rparr>)"
  using leave_channel
    [of w ch dev "\<lambda>w2. Done (w2\<lparr>window_closed := window_closed w2 + 1, is_closed := True\<rparr>)"]
  by (simp add: closeEvent_def Let_def)

lemma handle_next_btn_on_channel:
  "channel w = Some ch \<Longrightarrow>
   handle_next_btn dev w =
     load_current_stage dev
       (w\<lparr>calls := calls w @ safety_contract dev (calls w) ch,
          current_stage_index := current_stage_index w + 1\<rparr>)"
  using leave_channel
    [of w ch dev
        "\<lambda>w2. load_current_stage dev (w2\<lparr>current_stage_index := current_stage_index w2 + 1\<rparr>)"]
  by (simp add: handle_next_btn_def Let_def)

lemma handle_back_btn_on_channel:
  "channel w = Some ch \<Longrightarrow>
   handle_back_btn dev w =
     load_current_stage dev
       (w\<lparr>back_button_pressed := True,
          calls := calls w @ safety_contract dev (calls w) ch,
          current_stage_index := current_stage_index w - 1\<rparr>)"
  using leave_channel
    [of "w\<lparr>back_button_pressed := True\<rparr>" ch dev
        "\<lambda>w2. load_current_stage dev (w2\<lparr>current_stage_index := current_stage_index w2 - 1\<rparr>)"]
  by (simp add: handle_back_btn_def Let_def)

lemma call_stage_calls [simp]: "calls (state_of (call_stage st w)) = calls w"
  by (cases st) (simp_all add: create_gui_defs Let_def split: option.splits)

lemma call_stage_channel [simp]:
  "channel (state_of (call_stage st w)) = Some (stage_channel st)"
  by (cases st) (simp_all add: create_gui_defs Let_def split: option.splits)

lemma load_current_stage_calls:
  "channel w = Some ch \<Longrightarrow>
   calls (state_of (load_current_stage dev w)) =
     (if current_stage_index w < int (length (test_stages w)) then calls w
      else calls w @ safety_contract dev (calls w) ch)"
  by (simp add: load_current_stage_def state_of_and_then clear_layout_def closeEvent_on_channel
        split: outcome.splits option.splits)

text \<open>
  Where the window shows the screen of a channel \<open>ch\<close>, closing the window, Next and
  Back each send the device the calls of the safety contract for \<open>ch\<close>, and nothing
  before them: the state query; if it reports the high voltage enabled,
  \<open>disable_high_voltage\<close> and then \<open>set_voltage(ch, '0')\<close>; the state query again; if it
  reports the solenoid enabled, \<open>disable_solenoid_current\<close> and then
  \<open>set_solenoid_current('0')\<close>. Next and Back send nothing more when the new index is
  below the length of the stage list; otherwise the window closes and the close event
  sends the same calls once more, for the same channel.
\<close>

lemma leaving_runs_safety_contract:
  assumes "channel w = Some ch"
  shows "calls (state_of (closeEvent dev w)) = calls w @ safety_contract dev (calls w) ch \<and>
         calls (state_of (handle_next_btn dev w)) =
           (let log = calls w @ safety_contract dev (calls w) ch
            in if current_stage_index w + 1 < int (length (test_stages w)) then log
               else log @ safety_contract dev log ch) \<and>
         calls (state_of (handle_back_btn dev w)) =
           (let log = calls w @ safety_contract dev (calls w) ch
            in if current_stage_index w - 1 < int (length (test_stages w)) then log
               else log @ safety_contract dev log ch)"
  using assms
  by (simp add: closeEvent_on_channel handle_next_btn_on_channel handle_back_btn_on_channel
        load_current_stage_calls Let_def)

lemma leaving_runs_safety_contract_on_beam:
  "channel beam_armed = Some ''BM'' \<and>
   calls (state_of (closeEvent bench_hvps beam_armed)) =
     calls beam_armed @
       [GetState, DisableHighVoltage, SetVoltage ''BM'' ''0'',
        GetState, DisableSolenoidCurrent, SetSolenoidCurrent ''0''] \<and>
   calls (state_of (handle_next_btn bench_hvps beam_armed)) =
     calls beam_armed @
       [GetState, DisableHighVoltage, SetVoltage ''BM'' ''0'',
        GetState, DisableSolenoidCurrent, SetSolenoidCurrent ''0'',
        GetState, GetState] \<and>
   calls (state_of (handle_back_btn bench_hvps beam_armed)) =
     calls beam_armed @
       [GetState, DisableHighVoltage, SetVoltage ''BM'' ''0'',
        GetState, DisableSolenoidCurrent, SetSolenoidCurrent ''0'']"
proof -
  have ch: "channel beam_armed = Some ''BM''"
    by code_simp
  have idx: "current_stage_index beam_armed = 0" "length (test_stages beam_armed) = 1"
    by code_simp+
  have first: "safety_contract bench_hvps (calls beam_armed) ''BM'' =
      [GetState, DisableHighVoltage, SetVoltage ''BM'' ''0'',
       GetState, DisableSolenoidCurrent, SetSolenoidCurrent ''0'']"
    by code_simp
  have second: "safety_contract bench_hvps
      (calls beam_armed @
         [GetState, DisableHighVoltage, SetVoltage ''BM'' ''0'',
          GetState, DisableSolenoidCurrent, SetSolenoidCurrent ''0'']) ''BM'' =
      [GetState, GetState]"
    by code_simp
  show ?thesis
    using leaving_runs_safety_contract [OF ch, of bench_hvps] ch
    by (simp add: idx first second Let_def)
qed

text \<open>
  C1, evaluated. The window is built with no occupied channel (or with none of the
  seven names) on a device that reports both outputs enabled. The stage list is
  empty, so the constructor emits the results and closes the window at once, before
  any screen has assigned \<open>self.channel\<close>. The close event asks for the state, disables
  the high voltage and raises on \<open>self.channel\<close>: the device still reports the solenoid
  enabled, but the state is not asked for again, \<open>disable_solenoid_current\<close> is not
  called and \<open>window_closed\<close> is not emitted.
\<close>

theorem close_without_channel_skips_solenoid:
  "reports_hv_enabled bench_hvps [EnableHighVoltage, EnableSolenoidCurrent] \<and>
   reports_sol_enabled bench_hvps
     [EnableHighVoltage, EnableSolenoidCurrent, GetState, DisableHighVoltage] \<and>
   (case init bench_hvps [EnableHighVoltage, EnableSolenoidCurrent] [] of
      Done w \<Rightarrow> False
    | Raised e w \<Rightarrow>
        e = AttributeError \<and> channel w = None \<and> length (test_complete w) = 1 \<and>
        calls w = [EnableHighVoltage, EnableSolenoidCurrent, GetState, DisableHighVoltage] \<and>
        window_closed w = 0 \<and> \<not> is_closed w) \<and>
   (case init bench_hvps [EnableHighVoltage, EnableSolenoidCurrent] [''XX''] of
      Done w \<Rightarrow> False
    | Raised e w \<Rightarrow>
        e = AttributeError \<and>
        calls w = [EnableHighVoltage, EnableSolenoidCurrent, GetState, DisableHighVoltage])"
  by code_simp

subsection \<open>The shape of the window\<close>

lemma length_set_enabled [simp]: "length (set_enabled k b les) = length les"
  by (simp add: set_enabled_def)

lemma length_disable_others [simp]: "length (disable_others k bs) = length bs"
  by (simp add: disable_others_def)

lemma length_prefill [simp]: "length (prefill n ms) = n"
  by (simp add: prefill_def)

lemma store_well_shaped:
  "well_shaped d \<Longrightarrow> store d ch k v = Inr d' \<Longrightarrow> well_shaped d'"
  by (fastforce simp add: well_shaped_def store_def list_all_iff split: option.splits if_splits)

lemma store_succeeds:
  "well_shaped d \<Longrightarrow> ch \<in> set canonical_channels \<Longrightarrow> k < slot_count ch \<Longrightarrow>
   \<exists>xs. d ch = Some xs \<and> length xs = slot_count ch \<and> store d ch k v = Inr (d(ch \<mapsto> xs[k := v]))"
  by (auto simp add: well_shaped_def store_def list_all_iff split: option.splits)

lemma store_slot:
  "store d ch k v = Inr d' \<Longrightarrow>
   slot d' c j = (if c = ch \<and> j = k then Some v else slot d c j)"
  by (auto simp add: store_def slot_def split: option.splits if_splits)

text \<open>The fields that the consistency of a window does not read.\<close>

lemma consistent_ignores [simp]:
  "consistent (w\<lparr>calls := cs\<rparr>) = consistent w"
  "consistent (w\<lparr>focus := f\<rparr>) = consistent w"
  "consistent (w\<lparr>window_closed := n\<rparr>) = consistent w"
  "consistent (w\<lparr>is_closed := b\<rparr>) = consistent w"
  "consistent (w\<lparr>back_button_pressed := b\<rparr>) = consistent w"
  "consistent (w\<lparr>current_stage_index := i\<rparr>) = consistent w"
  "consistent (w\<lparr>back_btn := b\<rparr>) = consistent w"
  "consistent (w\<lparr>test_complete := tc\<rparr>) = consistent w"
  by (simp_all add: consistent_def test_buttons_def on_sol_screen_def split: option.splits)

lemma hv_off_block_only_calls:
  "state_of (hv_off_block dev w) = w\<lparr>calls := calls (state_of (hv_off_block dev w))\<rparr>"
  by (simp add: hv_off_block_def enable_defs split: option.splits)

lemma closeEvent_only:
  "state_of (closeEvent dev w) =
     w\<lparr>calls := calls (state_of (closeEvent dev w)),
       window_closed := window_closed (state_of (closeEvent dev w)),
       is_closed := is_closed (state_of (closeEvent dev w))\<rparr>"
  by (simp add: closeEvent_def hv_off_block_def sol_off_block_eq enable_defs split: option.splits)

lemma closeEvent_consistent: "consistent (state_of (closeEvent dev w)) = consistent w"
  by (subst closeEvent_only) simp

lemma well_shaped_lookup:
  "well_shaped d \<Longrightarrow> ch \<in> set canonical_channels \<Longrightarrow>
   \<exists>xs. d ch = Some xs \<and> length xs = slot_count ch"
  by (auto simp add: well_shaped_def list_all_iff)

lemma hv_channel_facts:
  "ch \<in> set hv_channels \<Longrightarrow>
   ch \<in> set canonical_channels \<and> ch \<noteq> ''SL'' \<and> slot_count ch = 6"
  by (auto simp add: hv_channels_def canonical_channels_def slot_count_def)

lemma sol_channel_facts:
  "''SL'' \<in> set canonical_channels \<and> slot_count ''SL'' = 3"
  by (simp add: canonical_channels_def slot_count_def)

lemma create_hv_test_gui_consistent:
  assumes "well_shaped (readbacks w)" "well_shaped (measurements w)" "ch \<in> set hv_channels"
  shows "(\<exists>w'. create_hv_test_gui ch b w = Done w') \<and>
         consistent (state_of (create_hv_test_gui ch b w))"
proof -
  from hv_channel_facts [OF assms(3)]
  have ch: "ch \<in> set canonical_channels" "ch \<noteq> ''SL''" "slot_count ch = 6" by simp_all
  from well_shaped_lookup [OF assms(2) ch(1)]
  obtain ms where ms: "measurements w ch = Some ms" by blast
  show ?thesis
    using assms(1,2) ch ms
    by (simp add: create_hv_test_gui_def Let_def consistent_def list_ex_iff
          test_buttons_def on_sol_screen_def)
qed

lemma create_sol_test_gui_consistent:
  assumes "well_shaped (readbacks w)" "well_shaped (measurements w)"
  shows "(\<exists>w'. create_sol_test_gui w = Done w') \<and> consistent (state_of (create_sol_test_gui w))"
proof -
  from well_shaped_lookup [OF assms(2), of "''SL''"] sol_channel_facts
  obtain ms where ms: "measurements w ''SL'' = Some ms" by blast
  show ?thesis
    using assms ms sol_channel_facts
    by (simp add: create_sol_test_gui_def Let_def consistent_def list_ex_iff
          test_buttons_def on_sol_screen_def)
qed

lemma call_stage_consistent:
  "well_shaped (readbacks w) \<Longrightarrow> well_shaped (measurements w) \<Longrightarrow>
   (\<exists>w'. call_stage st w = Done w') \<and> consistent (state_of (call_stage st w))"
  by (cases st)
     (simp_all add: create_beam_test_gui_def create_ext_test_gui_def create_L1_test_gui_def
        create_L2_test_gui_def create_L3_test_gui_def create_L4_test_gui_def
        create_hv_test_gui_consistent create_sol_test_gui_consistent hv_channels_def)

lemma consistent_shapes:
  "consistent w \<Longrightarrow> well_shaped (readbacks w) \<and> well_shaped (measurements w)"
  by (simp add: consistent_def)

lemma clear_layout_consistent:
  "consistent w \<Longrightarrow> consistent (state_of (clear_layout w))"
  by (auto simp add: clear_layout_def consistent_def list_ex_iff split: option.splits)

lemma clear_layout_frame [simp]:
  "readbacks (state_of (clear_layout w)) = readbacks w"
  "measurements (state_of (clear_layout w)) = measurements w"
  "current_stage_index (state_of (clear_layout w)) = current_stage_index w"
  "back_button_pressed (state_of (clear_layout w)) = back_button_pressed w"
  by (simp_all add: clear_layout_def)

lemma load_current_stage_consistent:
  assumes "consistent w"
  shows "consistent (state_of (load_current_stage dev w))"
proof (cases "current_stage_index w < int (length (test_stages w))")
  case False
  then show ?thesis
    using assms by (simp add: load_current_stage_def closeEvent_consistent)
next
  case True
  define r1 where "r1 = (if back_button_pressed w then clear_layout w else Done w)"
  have c1: "consistent (state_of r1)"
    using assms by (simp add: r1_def clear_layout_consistent)
  show ?thesis
  proof (cases r1)
    case (Raised e w1)
    with c1 True show ?thesis
      by (simp add: load_current_stage_def r1_def [symmetric])
  next
    case (Done w1)
    define r2 where "r2 = (if current_stage_index w1 > 0 \<and> \<not> back_button_pressed w1
                  then clear_layout w1 else Done w1)"
    have c2: "consistent (state_of r2)"
      using c1 Done by (simp add: r2_def clear_layout_consistent)
    show ?thesis
    proof (cases r2)
      case (Raised e w2)
      with c2 True Done show ?thesis
        by (simp add: load_current_stage_def r1_def [symmetric] r2_def [symmetric])
    next
      case inner: (Done w2)
      with c2 have c3: "consistent w2" by simp
      show ?thesis
        using True Done inner c3 call_stage_consistent [OF consistent_shapes [OF c3, THEN conjunct1] consistent_shapes [OF c3, THEN conjunct2]]
        by (simp add: load_current_stage_def r1_def [symmetric] r2_def [symmetric] split: option.splits)
    qed
  qed
qed

subsection \<open>The shape is kept by every event\<close>

lemma get_hv_enable_state_snd [simp]:
  "snd (get_hv_enable_state dev w) = w\<lparr>calls := calls w @ [GetState]\<rparr>"
  by (simp add: enable_defs)

lemma get_sol_enable_state_snd [simp]:
  "snd (get_sol_enable_state dev w) = w\<lparr>calls := calls w @ [GetState]\<rparr>"
  by (simp add: enable_defs)

lemma get_hv_enable_state_fst [simp]:
  "fst (get_hv_enable_state dev w) = reports_hv_enabled dev (calls w)"
  by (simp add: enable_defs reports_hv_enabled_def)

lemma get_sol_enable_state_fst [simp]:
  "fst (get_sol_enable_state dev w) = reports_sol_enabled dev (calls w)"
  by (simp add: enable_defs reports_sol_enabled_def)

lemma handle_test_hv_btn_consistent:
  "consistent w \<Longrightarrow> consistent (state_of (handle_test_hv_btn k v dev w))"
  by (auto simp add: handle_test_hv_btn_def case_prod_beta hvps_call_def Let_def consistent_def
        test_buttons_def on_sol_screen_def split: option.splits)

lemma handle_test_sol_current_btn_consistent:
  "consistent w \<Longrightarrow> consistent (state_of (handle_test_sol_current_btn k v dev w))"
  by (auto simp add: handle_test_sol_current_btn_def case_prod_beta hvps_call_def Let_def
        consistent_def test_buttons_def on_sol_screen_def split: option.splits)

lemma handle_disable_consistent:
  "consistent w \<Longrightarrow> consistent (state_of (handle_disable_hv_btn dev w))"
  "consistent w \<Longrightarrow> consistent (state_of (handle_disable_sol_btn dev w))"
  by (auto simp add: handle_disable_hv_btn_def handle_disable_sol_btn_def case_prod_beta
        hvps_call_def Let_def split: option.splits)

lemma handle_hv_entered_consistent:
  assumes "consistent w"
  shows "consistent (state_of (handle_hv_entered k nxt dev w))"
proof (cases "channel w")
  case None
  with assms show ?thesis by (simp add: handle_hv_entered_def)
next
  case (Some ch)
  show ?thesis
  proof (cases "store (readbacks w) ch k (get_voltage dev (calls w) ch)")
    case (Inl e)
    with Some assms show ?thesis
      by (simp add: handle_hv_entered_def hvps_call_def Let_def)
  next
    case (Inr rb)
    with assms have rb: "well_shaped rb"
      by (auto simp add: consistent_def intro: store_well_shaped)
    show ?thesis
    proof (cases "store (measurements w) ch k (snd (line_edits w ! k))")
      case (Inl e)
      with Some Inr assms rb show ?thesis
        by (auto simp add: handle_hv_entered_def hvps_call_def Let_def consistent_def
              test_buttons_def on_sol_screen_def split: if_splits)
    next
      case inner: (Inr ms)
      with assms have ms: "well_shaped ms"
        by (auto simp add: consistent_def intro: store_well_shaped)
      from Some Inr inner assms rb ms show ?thesis
        by (auto simp add: handle_hv_entered_def hvps_call_def Let_def consistent_def
              test_buttons_def on_sol_screen_def split: if_splits)
    qed
  qed
qed

lemma handle_current_entered_consistent:
  assumes "consistent w"
  shows "consistent (state_of (handle_current_entered k nxt dev w))"
proof (cases "channel w")
  case None
  with assms show ?thesis by (simp add: handle_current_entered_def)
next
  case (Some ch)
  show ?thesis
  proof (cases "store (readbacks w) ch k (get_current dev (calls w) ch)")
    case (Inl e)
    with Some assms show ?thesis
      by (simp add: handle_current_entered_def hvps_call_def Let_def)
  next
    case (Inr rb)
    with assms have rb: "well_shaped rb"
      by (auto simp add: consistent_def intro: store_well_shaped)
    show ?thesis
    proof (cases "store (measurements w) ch k (snd (line_edits w ! k))")
      case (Inl e)
      with Some Inr assms rb show ?thesis
        by (auto simp add: handle_current_entered_def hvps_call_def Let_def consistent_def
              test_buttons_def on_sol_screen_def split: if_splits)
    next
      case inner: (Inr ms)
      with assms have ms: "well_shaped ms"
        by (auto simp add: consistent_def intro: store_well_shaped)
      from Some Inr inner assms rb ms show ?thesis
        by (auto simp add: handle_current_entered_def hvps_call_def Let_def consistent_def
              test_buttons_def on_sol_screen_def split: if_splits)
    qed
  qed
qed

lemma hv_off_block_consistent:
  "consistent (state_of (hv_off_block dev w)) = consistent w"
  by (subst hv_off_block_only_calls) simp

lemma handle_next_btn_consistent:
  assumes "consistent w"
  shows "consistent (state_of (handle_next_btn dev w))"
proof (cases "hv_off_block dev w")
  case (Raised e w1)
  with hv_off_block_consistent [of dev w] assms show ?thesis
    by (simp add: handle_next_btn_def)
next
  case (Done w1)
  with hv_off_block_consistent [of dev w] assms have "consistent w1" by simp
  then have "consistent (sol_off_block dev w1\<lparr>current_stage_index := current_stage_index (sol_off_block dev w1) + 1\<rparr>)"
    by (simp add: sol_off_block_eq)
  from load_current_stage_consistent [OF this] Done show ?thesis
    by (simp add: handle_next_btn_def Let_def)
qed

lemma handle_back_btn_consistent:
  assumes "consistent w"
  shows "consistent (state_of (handle_back_btn dev w))"
proof (cases "hv_off_block dev (w\<lparr>back_button_pressed := True\<rparr>)")
  case (Raised e w1)
  with hv_off_block_consistent [of dev "w\<lparr>back_button_pressed := True\<rparr>"] assms show ?thesis
    by (simp add: handle_back_btn_def)
next
  case (Done w1)
  with hv_off_block_consistent [of dev "w\<lparr>back_button_pressed := True\<rparr>"] assms
  have "consistent w1" by simp
  then have "consistent (sol_off_block dev w1\<lparr>current_stage_index := current_stage_index (sol_off_block dev w1) - 1\<rparr>)"
    by (simp add: sol_off_block_eq)
  from load_current_stage_consistent [OF this] Done show ?thesis
    by (simp add: handle_back_btn_def Let_def)
qed

lemma nth_hv_test_handlers:
  "k < 6 \<Longrightarrow> \<exists>v. hv_test_handlers ! k = handle_test_hv_btn k v"
  by (auto simp add: hv_test_handlers_def handle_test_pos_100V_btn_def handle_test_pos_500V_btn_def
     handle_test_pos_1kV_btn_def handle_test_neg_100V_btn_def handle_test_neg_500V_btn_def
     handle_test_neg_1kV_btn_def less_Suc_eq numeral_eq_Suc)

lemma nth_sol_test_handlers:
  "k < 3 \<Longrightarrow> \<exists>v. sol_test_handlers ! k = handle_test_sol_current_btn k v"
  by (auto simp add: sol_test_handlers_def handle_test_sol_current1_btn_def
       handle_test_sol_current2_btn_def handle_test_sol_current3_btn_def less_Suc_eq numeral_eq_Suc)

lemma nth_hv_entered_handlers:
  "k < 6 \<Longrightarrow> \<exists>nxt. hv_entered_handlers ! k = handle_hv_entered k nxt"
  by (auto simp add: hv_entered_handlers_def handle_pos_100V_entered_def handle_pos_500V_entered_def
     handle_pos_1kV_entered_def handle_neg_100V_entered_def handle_neg_500V_entered_def
     handle_neg_1kV_entered_def less_Suc_eq numeral_eq_Suc)

lemma nth_sol_entered_handlers:
  "k < 3 \<Longrightarrow> \<exists>nxt. sol_entered_handlers ! k = handle_current_entered k nxt"
  by (auto simp add: sol_entered_handlers_def handle_current1_entered_def
       handle_current2_entered_def handle_current3_entered_def less_Suc_eq numeral_eq_Suc)

lemma deliver_consistent:
  assumes "consistent w"
  shows "consistent (state_of (deliver dev ev w))"
proof (cases ev)
  case (Press_test k)
  then show ?thesis
    using assms nth_hv_test_handlers [of k] nth_sol_test_handlers [of k]
    by (auto simp add: handle_test_hv_btn_consistent handle_test_sol_current_btn_consistent)
next
  case (Type_text k s)
  then show ?thesis
    using assms
    by (auto simp add: consistent_def field_enabled_def test_buttons_def on_sol_screen_def
          split: option.splits)
next
  case (Return_pressed k)
  then show ?thesis
    using assms nth_hv_entered_handlers [of k] nth_sol_entered_handlers [of k]
    by (auto simp add: handle_hv_entered_consistent handle_current_entered_consistent)
next
  case Press_disable
  then show ?thesis using assms by (simp add: handle_disable_consistent)
next
  case Press_back
  then show ?thesis using assms by (simp add: handle_back_btn_consistent)
next
  case Press_next
  then show ?thesis using assms by (simp add: handle_next_btn_consistent)
next
  case Close_window
  then show ?thesis using assms by (simp add: closeEvent_consistent)
qed

lemma fire_consistent:
  "consistent w \<Longrightarrow> consistent (state_of (fire dev ev w))"
  by (simp add: fire_def deliver_consistent closeEvent_consistent)

lemma well_shaped_not_installed: "well_shaped not_installed"
  by (auto simp add: well_shaped_def not_installed_def canonical_channels_def slot_count_def)

lemma append_stage_only:
  "append_stage ch st w = w\<lparr>test_stages := test_stages (append_stage ch st w)\<rparr>"
  by (simp add: append_stage_def)

lemma consistent_test_stages [simp]:
  "consistent (w\<lparr>test_stages := ss\<rparr>) = consistent w"
  by (simp add: consistent_def test_buttons_def on_sol_screen_def split: option.splits)

lemma append_stage_consistent [simp]:
  "consistent (append_stage ch st w) = consistent w"
  by (subst append_stage_only) simp

lemma test_plan_consistent:
  "consistent w \<Longrightarrow> consistent (state_of (test_plan dev w))"
  by (simp add: test_plan_def Let_def load_current_stage_consistent)

lemma init_consistent: "consistent (state_of (init dev log occ))"
  unfolding init_def
  by (rule test_plan_consistent) (simp add: consistent_def well_shaped_not_installed)

lemma fire_all_consistent:
  "consistent w \<Longrightarrow> consistent (fire_all dev evs w)"
  by (induction evs arbitrary: w) (simp_all add: fire_consistent)

lemma session_consistent: "consistent (session dev log occ evs)"
  by (simp add: session_def fire_all_consistent init_consistent)

subsection \<open>Arming and capturing a test point\<close>

lemma consistent_channel:
  "consistent w \<Longrightarrow> channel w = Some ch \<Longrightarrow> ch \<in> set canonical_channels"
  by (simp add: consistent_def list_ex_iff)

lemma consistent_screen:
  "consistent w \<Longrightarrow> layout_filled w \<Longrightarrow> channel w = Some ch \<Longrightarrow>
   length (line_edits w) = slot_count ch \<and> length (test_buttons w) = slot_count ch"
  by (simp add: consistent_def)

lemma consistent_layout_channel:
  "consistent w \<Longrightarrow> layout_filled w \<Longrightarrow> \<exists>ch. channel w = Some ch"
  by (cases "channel w") (simp_all add: consistent_def)

lemma slot_store:
  "d ch = Some xs \<Longrightarrow> k < length xs \<Longrightarrow> slot (d(ch \<mapsto> xs[k := v])) ch k = Some v"
  by (simp add: slot_def)

lemma handle_hv_entered_done:
  assumes "consistent w" "channel w = Some ch" "k < slot_count ch"
  shows "\<exists>w'. handle_hv_entered k nxt dev w = Done w' \<and>
           calls w' = calls w @ [GetVoltage ch, SetVoltage ch ''0'', DisableHighVoltage] \<and>
           slot (readbacks w') ch k = Some (get_voltage dev (calls w) ch) \<and>
           slot (measurements w') ch k = Some (snd (line_edits w ! k))"
proof -
  have ch: "ch \<in> set canonical_channels"
    using assms(1,2) by (rule consistent_channel)
  from consistent_shapes [OF assms(1)]
  have shapes: "well_shaped (readbacks w)" "well_shaped (measurements w)" by simp_all
  from well_shaped_lookup [OF shapes(1) ch]
  obtain rs where rs: "readbacks w ch = Some rs" "length rs = slot_count ch"
    by blast
  from well_shaped_lookup [OF shapes(2) ch]
  obtain ms where ms: "measurements w ch = Some ms" "length ms = slot_count ch"
    by blast
  have stored:
    "\<And>v. store (readbacks w) ch k v = Inr ((readbacks w)(ch \<mapsto> rs[k := v]))"
    "\<And>v. store (measurements w) ch k v = Inr ((measurements w)(ch \<mapsto> ms[k := v]))"
    using rs ms assms(3) by (simp_all add: store_def)
  show ?thesis
    using assms(2,3) rs ms stored
    by (simp add: handle_hv_entered_def hvps_call_def Let_def slot_store)
qed

lemma handle_current_entered_done:
  assumes "consistent w" "channel w = Some ch" "k < slot_count ch"
  shows "\<exists>w'. handle_current_entered k nxt dev w = Done w' \<and>
           calls w' = calls w @ [GetCurrent ch, SetSolenoidCurrent ''0'', DisableSolenoidCurrent] \<and>
           slot (readbacks w') ch k = Some (get_current dev (calls w) ch) \<and>
           slot (measurements w') ch k = Some (snd (line_edits w ! k))"
proof -
  have ch: "ch \<in> set canonical_channels"
    using assms(1,2) by (rule consistent_channel)
  from consistent_shapes [OF assms(1)]
  have shapes: "well_shaped (readbacks w)" "well_shaped (measurements w)" by simp_all
  from well_shaped_lookup [OF shapes(1) ch]
  obtain rs where rs: "readbacks w ch = Some rs" "length rs = slot_count ch"
    by blast
  from well_shaped_lookup [OF shapes(2) ch]
  obtain ms where ms: "measurements w ch = Some ms" "length ms = slot_count ch"
    by blast
  have stored:
    "\<And>v. store (readbacks w) ch k v = Inr ((readbacks w)(ch \<mapsto> rs[k := v]))"
    "\<And>v. store (measurements w) ch k v = Inr ((measurements w)(ch \<mapsto> ms[k := v]))"
    using rs ms assms(3) by (simp_all add: store_def)
  show ?thesis
    using assms(2,3) rs ms stored
    by (simp add: handle_current_entered_def hvps_call_def Let_def slot_store)
qed

lemma handle_test_hv_btn_calls:
  "channel w = Some ch \<Longrightarrow>
   calls (state_of (handle_test_hv_btn k v dev w)) =
     calls w @ [SetVoltage ch v, GetState] @
       (if reports_hv_enabled dev (calls w @ [SetVoltage ch v]) then [] else [EnableHighVoltage])"
  by (simp add: handle_test_hv_btn_def case_prod_beta hvps_call_def Let_def)

lemma handle_test_hv_btn_channel [simp]:
  "channel (state_of (handle_test_hv_btn k v dev w)) = channel w"
  by (simp add: handle_test_hv_btn_def case_prod_beta hvps_call_def Let_def split: option.splits)

lemma deliver_Type_text_frame [simp]:
  "channel (state_of (deliver dev (Type_text k s) w)) = channel w"
  "calls (state_of (deliver dev (Type_text k s) w)) = calls w"
  by simp_all

text \<open>
  C6. On the beam screen, the handler of the +100 V button sends the device
  \<open>set_voltage('BM', '100')\<close>, then the state query, then \<open>enable_high_voltage()\<close>
  only if the answer does not report the high voltage enabled. When the operator has
  typed a measurement, the handler of the field sends \<open>get_voltage('BM')\<close>, then
  \<open>set_voltage('BM', '0')\<close>, then \<open>disable_high_voltage()\<close>, and nothing else.
\<close>

theorem beam_100V_arm_then_capture:
  assumes "consistent w" and "channel w = Some ''BM''"
  shows "let w1 = state_of (handle_test_pos_100V_btn dev w);
             w2 = state_of (deliver dev (Type_text 0 s) w1);
             w3 = state_of (handle_pos_100V_entered dev w2)
         in calls w1 =
              calls w @ [SetVoltage ''BM'' ''100'', GetState] @
                (if reports_hv_enabled dev (calls w @ [SetVoltage ''BM'' ''100''])
                 then [] else [EnableHighVoltage]) \<and>
            calls w3 =
              calls w1 @ [GetVoltage ''BM'', SetVoltage ''BM'' ''0'', DisableHighVoltage]"
proof -
  define w1 where "w1 = state_of (handle_test_pos_100V_btn dev w)"
  define w2 where "w2 = state_of (deliver dev (Type_text 0 s) w1)"
  have arm: "calls w1 =
      calls w @ [SetVoltage ''BM'' ''100'', GetState] @
        (if reports_hv_enabled dev (calls w @ [SetVoltage ''BM'' ''100''])
         then [] else [EnableHighVoltage])"
    using handle_test_hv_btn_calls [OF assms(2), of 0 "''100''" dev]
    by (simp add: w1_def handle_test_pos_100V_btn_def test_voltages_def)
  have c1: "consistent w1"
    unfolding w1_def handle_test_pos_100V_btn_def
    by (rule handle_test_hv_btn_consistent) (rule assms(1))
  have c2: "consistent w2"
    unfolding w2_def by (rule deliver_consistent) (rule c1)
  have ch2: "channel w2 = Some ''BM''"
    using assms(2) by (simp add: w2_def w1_def handle_test_pos_100V_btn_def)
  have calls2: "calls w2 = calls w1"
    by (simp add: w2_def)
  from handle_hv_entered_done [OF c2 ch2, of 0 "Hv_button 1" dev]
  have "calls (state_of (handle_pos_100V_entered dev w2)) =
          calls w2 @ [GetVoltage ''BM'', SetVoltage ''BM'' ''0'', DisableHighVoltage]"
    by (auto simp add: handle_pos_100V_entered_def slot_count_def)
  then show ?thesis
    unfolding Let_def w1_def [symmetric] w2_def [symmetric]
    using arm calls2 by simp
qed

theorem beam_100V_arm_then_capture_witness:
  "consistent beam_idle \<and> channel beam_idle = Some ''BM'' \<and>
   (let w1 = state_of (handle_test_pos_100V_btn bench_hvps beam_idle);
        w2 = state_of (deliver bench_hvps (Type_text 0 ''99.8'') w1);
        w3 = state_of (handle_pos_100V_entered bench_hvps w2)
    in calls w1 = [SetVoltage ''BM'' ''100'', GetState, EnableHighVoltage] \<and>
       calls w3 = calls w1 @ [GetVoltage ''BM'', SetVoltage ''BM'' ''0'', DisableHighVoltage])"
proof -
  have c: "consistent beam_idle"
    unfolding beam_idle_def by (rule session_consistent)
  have ch: "channel beam_idle = Some ''BM''"
    by code_simp
  have log: "calls beam_idle = []"
    by code_simp
  have off: "\<not> reports_hv_enabled bench_hvps [SetVoltage ''BM'' ''100'']"
    by code_simp
  show ?thesis
    using beam_100V_arm_then_capture [OF c ch, of bench_hvps "''99.8''"] c ch
    by (simp add: Let_def log off)
qed

text \<open>
  C5. On an open window that shows the screen of channel \<open>ch\<close> with test point \<open>k\<close>
  armed, whatever string \<open>s\<close> the operator types into the field and submits is stored
  unchanged as \<open>measurements[ch][k]\<close>, and \<open>readbacks[ch][k]\<close> is what the device
  answers at that moment to \<open>get_current\<close> on the solenoid screen and to \<open>get_voltage\<close>
  on every other screen.
\<close>

theorem capture_round_trip:
  assumes "consistent w" and "\<not> is_closed w" and "layout_filled w"
    and "channel w = Some ch" and "field_enabled w k"
  shows "let w1 = state_of (fire dev (Type_text k s) w);
             w2 = state_of (fire dev (Return_pressed k) w1)
         in slot (measurements w2) ch k = Some s \<and>
            slot (readbacks w2) ch k =
              Some (if ch = ''SL'' then get_current dev (calls w1) ch
                    else get_voltage dev (calls w1) ch)"
proof -
  define w1 where "w1 = state_of (fire dev (Type_text k s) w)"
  have w1: "w1 = w\<lparr>line_edits := (line_edits w)[k := (True, s)]\<rparr>"
    using assms(2,3,5) by (simp add: w1_def fire_def)
  have k: "k < slot_count ch"
    using consistent_screen [OF assms(1,3,4)] assms(5) by (simp add: field_enabled_def)
  have c1: "consistent w1"
    unfolding w1_def by (rule fire_consistent) (rule assms(1))
  have ch1: "channel w1 = Some ch"
    using assms(4) by (simp add: w1)
  have typed: "snd (line_edits w1 ! k) = s" and armed: "field_enabled w1 k"
    using assms(5) by (simp_all add: w1 field_enabled_def)
  have open1: "\<not> is_closed w1" "layout_filled w1"
    using assms(2,3) by (simp_all add: w1)
  show ?thesis
  proof (cases "ch = ''SL''")
    case True
    with k have k3: "k < 3" by (simp add: slot_count_def)
    from nth_sol_entered_handlers [OF k3]
    obtain nxt where nxt: "sol_entered_handlers ! k = handle_current_entered k nxt" by blast
    have "fire dev (Return_pressed k) w1 = handle_current_entered k nxt dev w1"
      using open1 armed ch1 True k3 nxt by (simp add: fire_def on_sol_screen_def)
    with handle_current_entered_done [OF c1 ch1 k, of nxt dev] typed True
    show ?thesis
      unfolding Let_def w1_def [symmetric] by auto
  next
    case False
    with k have k6: "k < 6" by (simp add: slot_count_def)
    from nth_hv_entered_handlers [OF k6]
    obtain nxt where nxt: "hv_entered_handlers ! k = handle_hv_entered k nxt" by blast
    have "fire dev (Return_pressed k) w1 = handle_hv_entered k nxt dev w1"
      using open1 armed ch1 False k6 nxt by (simp add: fire_def on_sol_screen_def)
    with handle_hv_entered_done [OF c1 ch1 k, of nxt dev] typed False
    show ?thesis
      unfolding Let_def w1_def [symmetric] by auto
  qed
qed

theorem capture_round_trip_witness:
  "consistent beam_armed \<and> \<not> is_closed beam_armed \<and> layout_filled beam_armed \<and>
   channel beam_armed = Some ''BM'' \<and> field_enabled beam_armed 4 \<and>
   (let w1 = state_of (fire bench_hvps (Type_text 4 ''about -503.2'') beam_armed);
        w2 = state_of (fire bench_hvps (Return_pressed 4) w1)
    in slot (measurements w2) ''BM'' 4 = Some ''about -503.2'' \<and>
       slot (readbacks w2) ''BM'' 4 = Some ''-500'')"
proof -
  have c: "consistent beam_armed"
    unfolding beam_armed_def by (rule session_consistent)
  have facts: "\<not> is_closed beam_armed" "layout_filled beam_armed"
    "channel beam_armed = Some ''BM''" "field_enabled beam_armed 4"
    by code_simp+
  have log: "calls (state_of (fire bench_hvps (Type_text 4 ''about -503.2'') beam_armed)) =
      calls beam_armed"
    using facts by (simp add: fire_def)
  have answer: "get_voltage bench_hvps (calls beam_armed) ''BM'' = ''-500''"
    by code_simp
  show ?thesis
    using capture_round_trip [OF c facts, of bench_hvps "''about -503.2''"] c facts
    by (simp add: Let_def log answer)
qed

subsection \<open>Completion and the index below zero\<close>


lemma closeEvent_test_complete [simp]:
  "test_complete (state_of (closeEvent dev w)) = test_complete w"
  by (subst closeEvent_only) simp


text \<open>
  A window that never built a screen has no \<open>channel\<close> attribute. If the device reports
  the high voltage enabled when such a window closes, the close event disables the
  high voltage, raises on \<open>self.channel\<close> and does not reach the solenoid block.
\<close>

lemma closeEvent_without_channel:
  "channel w = None \<Longrightarrow> reports_hv_enabled dev (calls w) \<Longrightarrow>
   closeEvent dev w =
     Raised AttributeError (w\<lparr>calls := calls w @ [GetState, DisableHighVoltage]\<rparr>)"
  by (simp add: closeEvent_def hv_off_block_def case_prod_beta hvps_call_def
        split: if_splits)




lemma py_index_last: "xs \<noteq> [] \<Longrightarrow> py_index xs (- 1) = Some (last xs)"
  by (cases xs rule: rev_cases) (simp_all add: py_index_def nth_append)









text \<open>
  C3, evaluated. The extractor alone is installed. The Back button of the first
  screen is enabled, at index 0; pressing it sets the index to -1 and shows the
  extractor screen again; pressing it once more sets the index to -2, where indexing
  the stage list raises and leaves the window without a screen.
\<close>

theorem back_enabled_on_first_screen:
  "back_btn (session bench_hvps [] [''EX''] []) \<and>
   current_stage_index (session bench_hvps [] [''EX''] []) = 0 \<and>
   current_stage_index (session bench_hvps [] [''EX''] [Press_back]) = - 1 \<and>
   channel (session bench_hvps [] [''EX''] [Press_back]) = Some ''EX'' \<and>
   back_btn (session bench_hvps [] [''EX''] [Press_back]) \<and>
   current_stage_index (session bench_hvps [] [''EX''] [Press_back, Press_back]) = - 2 \<and>
   (case fire bench_hvps Press_back (session bench_hvps [] [''EX''] [Press_back]) of
      Done w \<Rightarrow> False
    | Raised e w \<Rightarrow> e = IndexError \<and> \<not> layout_filled w)"
  by code_simp

subsection \<open>What a handler leaves untouched\<close>

lemma closeEvent_calls_only:
  "\<exists>cs n b. state_of (closeEvent dev w) = w\<lparr>calls := cs, window_closed := n, is_closed := b\<rparr>"
  by (rule exI)+ (rule closeEvent_only)

lemma closeEvent_frame [simp]:
  "readbacks (state_of (closeEvent dev w)) = readbacks w"
  "measurements (state_of (closeEvent dev w)) = measurements w"
  "channel (state_of (closeEvent dev w)) = channel w"
  using closeEvent_calls_only [of dev w] by auto

lemma call_stage_frame [simp]:
  "readbacks (state_of (call_stage st w)) = readbacks w"
  "measurements (state_of (call_stage st w)) = measurements w"
  by (cases st; simp add: create_gui_defs Let_def split: option.splits)+

lemma load_current_stage_frame [simp]:
  "readbacks (state_of (load_current_stage dev w)) = readbacks w"
  "measurements (state_of (load_current_stage dev w)) = measurements w"
  by (simp_all add: load_current_stage_def state_of_and_then clear_layout_def
        split: outcome.splits option.splits)

lemma py_index_mem: "py_index xs i = Some x \<Longrightarrow> x \<in> set xs"
  by (auto simp add: py_index_def split: if_splits)

lemma clear_layout_channel [simp]:
  "channel (state_of (clear_layout w)) = channel w"
  "test_stages (state_of (clear_layout w)) = test_stages w"
  by (simp_all add: clear_layout_def)

lemma load_current_stage_channel:
  assumes "channel (state_of (load_current_stage dev w)) = Some c"
  shows "channel w = Some c \<or> c \<in> stage_channel ` set (test_stages w)"
proof (cases "current_stage_index w < int (length (test_stages w))")
  case False
  with assms show ?thesis by (simp add: load_current_stage_def)
next
  case True
  define r1 where "r1 = (if back_button_pressed w then clear_layout w else Done w)"
  have r1: "channel (state_of r1) = channel w" "test_stages (state_of r1) = test_stages w"
    by (simp_all add: r1_def)
  show ?thesis
  proof (cases r1)
    case (Raised e w1)
    with assms True r1 show ?thesis
      by (simp add: load_current_stage_def r1_def [symmetric])
  next
    case (Done w1)
    define r2 where "r2 = (if current_stage_index w1 > 0 \<and> \<not> back_button_pressed w1
                  then clear_layout w1 else Done w1)"
    have r2: "channel (state_of r2) = channel w" "test_stages (state_of r2) = test_stages w"
      using r1 Done by (simp_all add: r2_def)
    show ?thesis
    proof (cases r2)
      case (Raised e w2)
      with assms True Done r2 show ?thesis
        by (simp add: load_current_stage_def r1_def [symmetric] r2_def [symmetric])
    next
      case inner: (Done w2)
      show ?thesis
      proof (cases "py_index (test_stages w2) (current_stage_index w2)")
        case None
        with assms True Done inner r2 show ?thesis
          by (simp add: load_current_stage_def r1_def [symmetric] r2_def [symmetric])
      next
        case (Some st)
        from py_index_mem [OF Some] r2 inner have "st \<in> set (test_stages w)" by simp
        moreover from assms True Done inner Some have "c = stage_channel st"
          by (simp add: load_current_stage_def r1_def [symmetric] r2_def [symmetric])
        ultimately show ?thesis by blast
      qed
    qed
  qed
qed

lemma calls_overwrite: "w1 = w\<lparr>calls := cs\<rparr> \<Longrightarrow> w1\<lparr>calls := X\<rparr> = w\<lparr>calls := X\<rparr>"
  by simp

lemma leave_split:
  "\<exists>cs. state_of (and_then (hv_off_block dev w) (\<lambda>w1. f (sol_off_block dev w1))) = w\<lparr>calls := cs\<rparr> \<or>
        state_of (and_then (hv_off_block dev w) (\<lambda>w1. f (sol_off_block dev w1))) =
          state_of (f (w\<lparr>calls := cs\<rparr>))"
proof (cases "hv_off_block dev w")
  case (Raised e w1)
  with hv_off_block_only_calls [of dev w] have "w1 = w\<lparr>calls := calls w1\<rparr>" by simp
  with Raised show ?thesis by auto
next
  case (Done w1)
  with hv_off_block_only_calls [of dev w] have "w1 = w\<lparr>calls := calls w1\<rparr>" by simp
  from calls_overwrite [OF this]
  have "sol_off_block dev w1 = w\<lparr>calls := calls w1 @ sol_quiesce dev (calls w1)\<rparr>"
    by (simp add: sol_off_block_eq)
  with Done show ?thesis by auto
qed

lemma handle_next_btn_frame:
  "readbacks (state_of (handle_next_btn dev w)) = readbacks w \<and>
   measurements (state_of (handle_next_btn dev w)) = measurements w \<and>
   test_stages (state_of (handle_next_btn dev w)) = test_stages w \<and>
   (channel (state_of (handle_next_btn dev w)) = Some c \<longrightarrow>
      channel w = Some c \<or> c \<in> stage_channel ` set (test_stages w))"
proof -
  define f where "f = (\<lambda>w2. load_current_stage dev (w2\<lparr>current_stage_index := current_stage_index w2 + 1\<rparr>))"
  have next_eq: "handle_next_btn dev w = and_then (hv_off_block dev w) (\<lambda>w1. f (sol_off_block dev w1))"
    by (simp add: handle_next_btn_def f_def Let_def)
  from leave_split [of dev w f]
  obtain cs where "state_of (handle_next_btn dev w) = w\<lparr>calls := cs\<rparr> \<or>
      state_of (handle_next_btn dev w) = state_of (f (w\<lparr>calls := cs\<rparr>))"
    unfolding next_eq by blast
  then show ?thesis
  proof
    assume "state_of (handle_next_btn dev w) = w\<lparr>calls := cs\<rparr>"
    then show ?thesis by simp
  next
    assume eq: "state_of (handle_next_btn dev w) = state_of (f (w\<lparr>calls := cs\<rparr>))"
    show ?thesis
      unfolding eq f_def
      using load_current_stage_channel [of dev "w\<lparr>calls := cs, current_stage_index := current_stage_index w + 1\<rparr>" c]
      by simp
  qed
qed

lemma handle_back_btn_frame:
  "readbacks (state_of (handle_back_btn dev w)) = readbacks w \<and>
   measurements (state_of (handle_back_btn dev w)) = measurements w \<and>
   test_stages (state_of (handle_back_btn dev w)) = test_stages w \<and>
   (channel (state_of (handle_back_btn dev w)) = Some c \<longrightarrow>
      channel w = Some c \<or> c \<in> stage_channel ` set (test_stages w))"
proof -
  define f where "f = (\<lambda>w2. load_current_stage dev (w2\<lparr>current_stage_index := current_stage_index w2 - 1\<rparr>))"
  define wb where "wb = w\<lparr>back_button_pressed := True\<rparr>"
  have back_eq: "handle_back_btn dev w = and_then (hv_off_block dev wb) (\<lambda>w1. f (sol_off_block dev w1))"
    by (simp add: handle_back_btn_def f_def wb_def Let_def)
  from leave_split [of dev wb f]
  obtain cs where "state_of (handle_back_btn dev w) = wb\<lparr>calls := cs\<rparr> \<or>
      state_of (handle_back_btn dev w) = state_of (f (wb\<lparr>calls := cs\<rparr>))"
    unfolding back_eq by blast
  then show ?thesis
  proof
    assume "state_of (handle_back_btn dev w) = wb\<lparr>calls := cs\<rparr>"
    then show ?thesis by (simp add: wb_def)
  next
    assume eq: "state_of (handle_back_btn dev w) = state_of (f (wb\<lparr>calls := cs\<rparr>))"
    show ?thesis
      unfolding eq f_def
      using load_current_stage_channel [of dev "wb\<lparr>calls := cs, current_stage_index := current_stage_index wb - 1\<rparr>" c]
      by (simp add: wb_def)
  qed
qed

lemma handle_test_hv_btn_frame [simp]:
  "readbacks (state_of (handle_test_hv_btn k v dev w)) = readbacks w"
  "measurements (state_of (handle_test_hv_btn k v dev w)) = measurements w"
  "test_stages (state_of (handle_test_hv_btn k v dev w)) = test_stages w"
  by (simp_all add: handle_test_hv_btn_def case_prod_beta hvps_call_def Let_def
        split: option.splits)

lemma handle_test_sol_current_btn_frame [simp]:
  "readbacks (state_of (handle_test_sol_current_btn k v dev w)) = readbacks w"
  "measurements (state_of (handle_test_sol_current_btn k v dev w)) = measurements w"
  "test_stages (state_of (handle_test_sol_current_btn k v dev w)) = test_stages w"
  "channel (state_of (handle_test_sol_current_btn k v dev w)) = channel w"
  by (simp_all add: handle_test_sol_current_btn_def case_prod_beta hvps_call_def Let_def)

lemma handle_disable_frame [simp]:
  "readbacks (state_of (handle_disable_hv_btn dev w)) = readbacks w"
  "measurements (state_of (handle_disable_hv_btn dev w)) = measurements w"
  "test_stages (state_of (handle_disable_hv_btn dev w)) = test_stages w"
  "channel (state_of (handle_disable_hv_btn dev w)) = channel w"
  "readbacks (state_of (handle_disable_sol_btn dev w)) = readbacks w"
  "measurements (state_of (handle_disable_sol_btn dev w)) = measurements w"
  "test_stages (state_of (handle_disable_sol_btn dev w)) = test_stages w"
  "channel (state_of (handle_disable_sol_btn dev w)) = channel w"
  by (simp_all add: handle_disable_hv_btn_def handle_disable_sol_btn_def case_prod_beta
        hvps_call_def Let_def split: option.splits)

lemma handle_hv_entered_frame [simp]:
  "test_stages (state_of (handle_hv_entered k nxt dev w)) = test_stages w"
  "channel (state_of (handle_hv_entered k nxt dev w)) = channel w"
  by (simp_all add: handle_hv_entered_def hvps_call_def Let_def split: option.splits sum.splits)

lemma handle_current_entered_frame [simp]:
  "test_stages (state_of (handle_current_entered k nxt dev w)) = test_stages w"
  "channel (state_of (handle_current_entered k nxt dev w)) = channel w"
  by (simp_all add: handle_current_entered_def hvps_call_def Let_def split: option.splits sum.splits)

lemma handle_hv_entered_slots:
  "slot (readbacks (state_of (handle_hv_entered k nxt dev w))) c j \<noteq> slot (readbacks w) c j \<or>
   slot (measurements (state_of (handle_hv_entered k nxt dev w))) c j \<noteq> slot (measurements w) c j \<Longrightarrow>
   channel w = Some c \<and> j = k"
  by (auto simp add: handle_hv_entered_def hvps_call_def Let_def store_slot
        split: option.splits sum.splits if_splits)

lemma handle_current_entered_slots:
  "slot (readbacks (state_of (handle_current_entered k nxt dev w))) c j \<noteq> slot (readbacks w) c j \<or>
   slot (measurements (state_of (handle_current_entered k nxt dev w))) c j \<noteq> slot (measurements w) c j \<Longrightarrow>
   channel w = Some c \<and> j = k"
  by (auto simp add: handle_current_entered_def hvps_call_def Let_def store_slot
        split: option.splits sum.splits if_splits)

lemma fire_test_stages [simp]:
  "test_stages (state_of (fire dev ev w)) = test_stages w"
proof (cases ev)
  case (Press_test k)
  then show ?thesis
    using nth_hv_test_handlers [of k] nth_sol_test_handlers [of k]
    by (auto simp add: fire_def)
next
  case (Return_pressed k)
  then show ?thesis
    using nth_hv_entered_handlers [of k] nth_sol_entered_handlers [of k]
    by (auto simp add: fire_def)
next
  case Press_back
  then show ?thesis using handle_back_btn_frame [of dev w] by (simp add: fire_def)
next
  case Press_next
  then show ?thesis using handle_next_btn_frame [of dev w] by (simp add: fire_def)
qed (simp_all add: fire_def)

lemma fire_channel:
  assumes "channel (state_of (fire dev ev w)) = Some c"
  shows "channel w = Some c \<or> c \<in> stage_channel ` set (test_stages w)"
proof (cases ev)
  case (Press_test k)
  then show ?thesis
    using assms nth_hv_test_handlers [of k] nth_sol_test_handlers [of k]
    by (auto simp add: fire_def split: if_splits)
next
  case (Type_text k s)
  then show ?thesis using assms by (auto simp add: fire_def split: if_splits)
next
  case (Return_pressed k)
  then show ?thesis
    using assms nth_hv_entered_handlers [of k] nth_sol_entered_handlers [of k]
    by (auto simp add: fire_def split: if_splits)
next
  case Press_disable
  then show ?thesis using assms by (auto simp add: fire_def split: if_splits)
next
  case Press_back
  then show ?thesis
    using assms handle_back_btn_frame [of dev w c] by (auto simp add: fire_def split: if_splits)
next
  case Press_next
  then show ?thesis
    using assms handle_next_btn_frame [of dev w c] by (auto simp add: fire_def split: if_splits)
next
  case Close_window
  then show ?thesis using assms by (auto simp add: fire_def split: if_splits)
qed

lemma fire_slots:
  assumes "slot (readbacks (state_of (fire dev ev w))) c j \<noteq> slot (readbacks w) c j \<or>
           slot (measurements (state_of (fire dev ev w))) c j \<noteq> slot (measurements w) c j"
  shows "ev = Return_pressed j \<and> channel w = Some c \<and> field_enabled w j \<and> \<not> is_closed w"
proof (cases ev)
  case (Press_test k)
  then show ?thesis
    using assms nth_hv_test_handlers [of k] nth_sol_test_handlers [of k]
    by (auto simp add: fire_def split: if_splits)
next
  case (Type_text k s)
  then show ?thesis using assms by (auto simp add: fire_def split: if_splits)
next
  case (Return_pressed k)
  show ?thesis
  proof (cases "\<not> is_closed w \<and> layout_filled w \<and> field_enabled w k")
    case False
    with assms Return_pressed show ?thesis by (auto simp add: fire_def split: if_splits)
  next
    case True
    show ?thesis
    proof (cases "on_sol_screen w")
      case sol: True
      show ?thesis
      proof (cases "k < 3")
        case False
        with assms Return_pressed True sol show ?thesis by (simp add: fire_def)
      next
        case k: True
        from nth_sol_entered_handlers [OF k]
        obtain nxt where "sol_entered_handlers ! k = handle_current_entered k nxt" by blast
        with Return_pressed True sol k
        have "fire dev ev w = handle_current_entered k nxt dev w" by (simp add: fire_def)
        with assms handle_current_entered_slots [of k nxt dev w c j] Return_pressed True
        show ?thesis by simp
      qed
    next
      case hv: False
      show ?thesis
      proof (cases "k < 6")
        case False
        with assms Return_pressed True hv show ?thesis by (simp add: fire_def)
      next
        case k: True
        from nth_hv_entered_handlers [OF k]
        obtain nxt where "hv_entered_handlers ! k = handle_hv_entered k nxt" by blast
        with Return_pressed True hv k
        have "fire dev ev w = handle_hv_entered k nxt dev w" by (simp add: fire_def)
        with assms handle_hv_entered_slots [of k nxt dev w c j] Return_pressed True
        show ?thesis by simp
      qed
    qed
  qed
next
  case Press_disable
  then show ?thesis using assms by (auto simp add: fire_def split: if_splits)
next
  case Press_back
  then show ?thesis
    using assms handle_back_btn_frame [of dev w] by (auto simp add: fire_def split: if_splits)
next
  case Press_next
  then show ?thesis
    using assms handle_next_btn_frame [of dev w] by (auto simp add: fire_def split: if_splits)
next
  case Close_window
  then show ?thesis using assms by (auto simp add: fire_def split: if_splits)
qed

subsection \<open>The result slots\<close>

lemma fire_all_append:
  "fire_all dev (xs @ ys) w = fire_all dev ys (fire_all dev xs w)"
  by (induction xs arbitrary: w) simp_all

lemma session_snoc:
  "session dev log occ (evs @ [ev]) = state_of (fire dev ev (session dev log occ evs))"
  by (simp add: session_def fire_all_append)

lemma session_test_stages:
  "test_stages (session dev log occ evs) = test_stages (state_of (init dev log occ))"
  by (induction evs rule: rev_induct) (simp_all add: session_snoc, simp add: session_def)

lemma append_stage_frame [simp]:
  "readbacks (append_stage ch st w) = readbacks w"
  "measurements (append_stage ch st w) = measurements w"
  "channel (append_stage ch st w) = channel w"
  by (simp_all add: append_stage_def)

lemma init_results:
  "readbacks (state_of (init dev log occ)) = not_installed"
  "measurements (state_of (init dev log occ)) = not_installed"
  by (simp_all add: init_def test_plan_def Let_def)

lemma init_channel:
  assumes "channel (state_of (init dev log occ)) = Some c"
  shows "c \<in> stage_channel ` set (test_stages (state_of (init dev log occ)))"
proof -
  define w where "w =
    (append_stage ''SL'' Sol (append_stage ''L4'' Lens4 (append_stage ''L3'' Lens3
      (append_stage ''L2'' Lens2 (append_stage ''L1'' Lens1 (append_stage ''EX'' Ext
        (append_stage ''BM'' Beam
           \<lparr>occupied_channels = occ, test_stages = [], readbacks = not_installed,
            measurements = not_installed, back_button_pressed = False,
            current_stage_index = 0, channel = None, hv_buttons = [],
            current_buttons = [], line_edits = [], back_btn = False,
            back_next_layout = False, layout_filled = False, focus = No_widget,
            calls = log, test_complete = [], window_closed = 0,
            is_closed = False\<rparr>)))))))\<lparr>current_stage_index := 0\<rparr>"
  have w: "init dev log occ = load_current_stage dev w" "channel w = None"
    by (simp_all add: init_def test_plan_def Let_def w_def)
  from load_current_stage_channel [of dev w c] assms w
  have "c \<in> stage_channel ` set (test_stages w)" by simp
  then show ?thesis by (simp add: w(1))
qed

lemma session_channel:
  "channel (session dev log occ evs) = Some c \<Longrightarrow>
   c \<in> stage_channel ` set (test_stages (state_of (init dev log occ)))"
proof (induction evs arbitrary: c rule: rev_induct)
  case Nil
  then show ?case by (simp add: session_def init_channel)
next
  case (snoc ev evs)
  from fire_channel [of dev ev "session dev log occ evs" c] snoc.prems
  have "channel (session dev log occ evs) = Some c \<or>
        c \<in> stage_channel ` set (test_stages (session dev log occ evs))"
    by (simp add: session_snoc)
  with snoc.IH show ?case by (auto simp add: session_test_stages)
qed

lemma session_channel_occupied:
  assumes "channel (session dev log occ evs) = Some c"
  shows "c \<in> set occ"
proof -
  from session_channel [OF assms] obtain st
    where "st \<in> set (test_stages (state_of (init dev log occ)))" "c = stage_channel st"
    by blast
  then show ?thesis
    by (simp only: init_test_stages set_filter mem_Collect_eq)
qed

lemma session_slots:
  "slot (readbacks (session dev log occ evs)) c j \<noteq> slot not_installed c j \<or>
   slot (measurements (session dev log occ evs)) c j \<noteq> slot not_installed c j \<Longrightarrow>
   \<exists>pre post. evs = pre @ Return_pressed j # post \<and>
      channel (session dev log occ pre) = Some c \<and> field_enabled (session dev log occ pre) j"
proof (induction evs rule: rev_induct)
  case Nil
  then show ?case by (simp add: session_def init_results)
next
  case (snoc ev evs)
  define w where "w = session dev log occ evs"
  show ?case
  proof (cases "slot (readbacks w) c j \<noteq> slot not_installed c j \<or>
                slot (measurements w) c j \<noteq> slot not_installed c j")
    case True
    from snoc.IH [OF True [unfolded w_def]]
    obtain pre post where "evs = pre @ Return_pressed j # post"
      "channel (session dev log occ pre) = Some c" "field_enabled (session dev log occ pre) j"
      by blast
    then have "evs @ [ev] = pre @ Return_pressed j # (post @ [ev]) \<and>
      channel (session dev log occ pre) = Some c \<and> field_enabled (session dev log occ pre) j"
      by simp
    then show ?thesis by blast
  next
    case False
    with snoc.prems
    have "slot (readbacks (state_of (fire dev ev w))) c j \<noteq> slot (readbacks w) c j \<or>
          slot (measurements (state_of (fire dev ev w))) c j \<noteq> slot (measurements w) c j"
      by (auto simp add: session_snoc w_def)
    from fire_slots [OF this]
    have "evs @ [ev] = evs @ Return_pressed j # [] \<and>
      channel (session dev log occ evs) = Some c \<and> field_enabled (session dev log occ evs) j"
      by (simp add: w_def)
    then show ?thesis by blast
  qed
qed

lemma not_installed_apply:
  "not_installed c =
     (if c \<in> set hv_channels then Some (replicate 6 ''N/I'')
      else if c = ''SL'' then Some (replicate 3 ''N/I'') else None)"
  by (simp add: not_installed_def hv_channels_def)

text \<open>
  C8. Both mappings start as \<open>not_installed\<close>: six \<open>'N/I'\<close> under each voltage channel,
  three under \<open>'SL'\<close> and no other key, whatever the occupied channels are. An event
  changes a slot of either mapping only if it is the submission of measurement field
  \<open>j\<close> on the screen of channel \<open>c\<close>, and then only slot \<open>j\<close> of channel \<open>c\<close>. So in
  every session a slot that differs from its initial value belongs to an occupied
  channel and was captured at its own channel and ordinal; the slots of channels that
  are not occupied and of points that were skipped keep \<open>'N/I'\<close>.
\<close>

theorem slots_written_only_by_capture:
  "not_installed c =
     (if c \<in> set hv_channels then Some (replicate 6 ''N/I'')
      else if c = ''SL'' then Some (replicate 3 ''N/I'') else None) \<and>
   readbacks (session dev log occ []) = not_installed \<and>
   measurements (session dev log occ []) = not_installed \<and>
   (slot (readbacks (state_of (fire dev ev w))) c j \<noteq> slot (readbacks w) c j \<or>
    slot (measurements (state_of (fire dev ev w))) c j \<noteq> slot (measurements w) c j \<longrightarrow>
      ev = Return_pressed j \<and> channel w = Some c \<and> field_enabled w j) \<and>
   (slot (readbacks (session dev log occ evs)) c j \<noteq> slot not_installed c j \<or>
    slot (measurements (session dev log occ evs)) c j \<noteq> slot not_installed c j \<longrightarrow>
      c \<in> set occ \<and>
      (\<exists>pre post. evs = pre @ Return_pressed j # post \<and>
         channel (session dev log occ pre) = Some c \<and>
         field_enabled (session dev log occ pre) j))"
proof -
  have step: "slot (readbacks (state_of (fire dev ev w))) c j \<noteq> slot (readbacks w) c j \<or>
    slot (measurements (state_of (fire dev ev w))) c j \<noteq> slot (measurements w) c j \<longrightarrow>
      ev = Return_pressed j \<and> channel w = Some c \<and> field_enabled w j"
    using fire_slots [of dev ev w c j] by blast
  have run: "slot (readbacks (session dev log occ evs)) c j \<noteq> slot not_installed c j \<or>
    slot (measurements (session dev log occ evs)) c j \<noteq> slot not_installed c j \<longrightarrow>
      c \<in> set occ \<and>
      (\<exists>pre post. evs = pre @ Return_pressed j # post \<and>
         channel (session dev log occ pre) = Some c \<and>
         field_enabled (session dev log occ pre) j)"
    using session_slots [of dev log occ evs c j] session_channel_occupied [of dev log occ _ c]
    by blast
  have start: "readbacks (session dev log occ []) = not_installed"
    "measurements (session dev log occ []) = not_installed"
    by (simp_all add: session_def init_results)
  from not_installed_apply [of c] start step run show ?thesis
    by (intro conjI)
qed

theorem slots_written_only_by_capture_witness:
  "slot (measurements (session bench_hvps [] [''BM'', ''SL'']
      [Press_test 0, Type_text 0 ''99.8'', Return_pressed 0, Press_next])) ''BM'' 0 = Some ''99.8'' \<and>
   slot not_installed ''BM'' 0 = Some ''N/I'' \<and>
   ''BM'' \<in> set [''BM'', ''SL''] \<and>
   (\<exists>pre post.
      [Press_test 0, Type_text 0 ''99.8'', Return_pressed 0, Press_next] =
        pre @ Return_pressed 0 # post \<and>
      channel (session bench_hvps [] [''BM'', ''SL''] pre) = Some ''BM'' \<and>
      field_enabled (session bench_hvps [] [''BM'', ''SL''] pre) 0) \<and>
   slot (measurements (session bench_hvps [] [''BM'', ''SL'']
      [Press_test 0, Type_text 0 ''99.8'', Return_pressed 0, Press_next])) ''BM'' 1 = Some ''N/I'' \<and>
   slot (readbacks (session bench_hvps [] [''BM'', ''SL'']
      [Press_test 0, Type_text 0 ''99.8'', Return_pressed 0, Press_next])) ''EX'' 2 = Some ''N/I''"
proof -
  have captured: "slot (measurements (session bench_hvps [] [''BM'', ''SL'']
      [Press_test 0, Type_text 0 ''99.8'', Return_pressed 0, Press_next])) ''BM'' 0 = Some ''99.8''"
    by code_simp
  have initial: "slot not_installed ''BM'' 0 = Some ''N/I''"
    by code_simp
  have skipped: "slot (measurements (session bench_hvps [] [''BM'', ''SL'']
      [Press_test 0, Type_text 0 ''99.8'', Return_pressed 0, Press_next])) ''BM'' 1 = Some ''N/I''"
    "slot (readbacks (session bench_hvps [] [''BM'', ''SL'']
      [Press_test 0, Type_text 0 ''99.8'', Return_pressed 0, Press_next])) ''EX'' 2 = Some ''N/I''"
    by code_simp+
  from slots_written_only_by_capture
    [where c = "''BM''" and j = 0 and dev = bench_hvps and log = "[]" and occ = "[''BM'', ''SL'']"
       and evs = "[Press_test 0, Type_text 0 ''99.8'', Return_pressed 0, Press_next]"]
    captured initial
  have "''BM'' \<in> set [''BM'', ''SL''] \<and>
    (\<exists>pre post.
      [Press_test 0, Type_text 0 ''99.8'', Return_pressed 0, Press_next] =
        pre @ Return_pressed 0 # post \<and>
      channel (session bench_hvps [] [''BM'', ''SL''] pre) = Some ''BM'' \<and>
      field_enabled (session bench_hvps [] [''BM'', ''SL''] pre) 0)"
    by simp
  with captured initial skipped show ?thesis
    by (intro conjI) simp_all
qed

subsection \<open>One armed point on a voltage screen\<close>

lemma hv_exclusive_ignores [simp]:
  "hv_exclusive (w\<lparr>calls := cs\<rparr>) = hv_exclusive w"
  "hv_exclusive (w\<lparr>focus := f\<rparr>) = hv_exclusive w"
  "hv_exclusive (w\<lparr>window_closed := n\<rparr>) = hv_exclusive w"
  "hv_exclusive (w\<lparr>is_closed := b\<rparr>) = hv_exclusive w"
  "hv_exclusive (w\<lparr>back_button_pressed := b\<rparr>) = hv_exclusive w"
  "hv_exclusive (w\<lparr>current_stage_index := i\<rparr>) = hv_exclusive w"
  "hv_exclusive (w\<lparr>back_btn := b\<rparr>) = hv_exclusive w"
  "hv_exclusive (w\<lparr>test_complete := tc\<rparr>) = hv_exclusive w"
  "hv_exclusive (w\<lparr>readbacks := rb\<rparr>) = hv_exclusive w"
  "hv_exclusive (w\<lparr>measurements := ms\<rparr>) = hv_exclusive w"
  "hv_exclusive (w\<lparr>test_stages := ss\<rparr>) = hv_exclusive w"
  by (simp_all add: hv_exclusive_def on_sol_screen_def field_enabled_def)

lemma hv_exclusive_cleared [simp]: "hv_exclusive (w\<lparr>layout_filled := False\<rparr>)"
  by (simp add: hv_exclusive_def)

lemma field_enabled_prefill [simp]: "\<not> fst (prefill n ms ! i)" if "i < n"
  using that by (simp add: prefill_def)

lemma call_stage_exclusive:
  assumes "well_shaped (readbacks w)" "well_shaped (measurements w)"
  shows "hv_exclusive (state_of (call_stage st w))"
proof -
  from call_stage_consistent [OF assms, of st]
  obtain w' where w': "call_stage st w = Done w'" by auto
  then have "\<not> field_enabled w' i" for i
    by (cases st) (auto simp add: create_gui_defs Let_def field_enabled_def split: option.splits)
  with w' show ?thesis by (simp add: hv_exclusive_def)
qed

lemma closeEvent_exclusive: "hv_exclusive (state_of (closeEvent dev w)) = hv_exclusive w"
  by (subst closeEvent_only) simp

lemma clear_layout_exclusive: "hv_exclusive w \<Longrightarrow> hv_exclusive (state_of (clear_layout w))"
  by (simp add: clear_layout_def)

lemma load_current_stage_exclusive:
  assumes "consistent w" "hv_exclusive w"
  shows "hv_exclusive (state_of (load_current_stage dev w))"
proof (cases "current_stage_index w < int (length (test_stages w))")
  case False
  then show ?thesis
    using assms by (simp add: load_current_stage_def closeEvent_exclusive)
next
  case True
  define r1 where "r1 = (if back_button_pressed w then clear_layout w else Done w)"
  have c1: "consistent (state_of r1)" "hv_exclusive (state_of r1)"
    using assms by (simp_all add: r1_def clear_layout_consistent clear_layout_exclusive)
  show ?thesis
  proof (cases r1)
    case (Raised e w1)
    with c1 True show ?thesis
      by (simp add: load_current_stage_def r1_def [symmetric])
  next
    case (Done w1)
    define r2 where "r2 = (if current_stage_index w1 > 0 \<and> \<not> back_button_pressed w1
                  then clear_layout w1 else Done w1)"
    have c2: "consistent (state_of r2)" "hv_exclusive (state_of r2)"
      using c1 Done by (simp_all add: r2_def clear_layout_consistent clear_layout_exclusive)
    show ?thesis
    proof (cases r2)
      case (Raised e w2)
      with c2 True Done show ?thesis
        by (simp add: load_current_stage_def r1_def [symmetric] r2_def [symmetric])
    next
      case inner: (Done w2)
      with c2 have c3: "consistent w2" "hv_exclusive w2" by simp_all
      show ?thesis
        using True Done inner c3
          call_stage_exclusive [OF consistent_shapes [OF c3(1), THEN conjunct1]
            consistent_shapes [OF c3(1), THEN conjunct2]]
        by (simp add: load_current_stage_def r1_def [symmetric] r2_def [symmetric]
              split: option.splits)
    qed
  qed
qed

lemma handle_next_btn_exclusive:
  assumes "consistent w" "hv_exclusive w"
  shows "hv_exclusive (state_of (handle_next_btn dev w))"
proof (cases "hv_off_block dev w")
  case (Raised e w1)
  with hv_off_block_only_calls [of dev w] have "w1 = w\<lparr>calls := calls w1\<rparr>" by simp
  then have "hv_exclusive w1 = hv_exclusive w" by (metis hv_exclusive_ignores(1))
  with Raised assms show ?thesis by (simp add: handle_next_btn_def)
next
  case (Done w1)
  with hv_off_block_only_calls [of dev w] have "w1 = w\<lparr>calls := calls w1\<rparr>" by simp
  then have "hv_exclusive w1 = hv_exclusive w" "consistent w1 = consistent w"
    by (metis hv_exclusive_ignores(1), metis consistent_ignores(1))
  with assms have "consistent (sol_off_block dev w1\<lparr>current_stage_index := current_stage_index (sol_off_block dev w1) + 1\<rparr>)"
    "hv_exclusive (sol_off_block dev w1\<lparr>current_stage_index := current_stage_index (sol_off_block dev w1) + 1\<rparr>)"
    by (simp_all add: sol_off_block_eq)
  from load_current_stage_exclusive [OF this] Done show ?thesis
    by (simp add: handle_next_btn_def Let_def)
qed

lemma handle_back_btn_exclusive:
  assumes "consistent w" "hv_exclusive w"
  shows "hv_exclusive (state_of (handle_back_btn dev w))"
proof (cases "hv_off_block dev (w\<lparr>back_button_pressed := True\<rparr>)")
  case (Raised e w1)
  with hv_off_block_only_calls [of dev "w\<lparr>back_button_pressed := True\<rparr>"]
  have "w1 = w\<lparr>back_button_pressed := True, calls := calls w1\<rparr>" by simp
  then have "hv_exclusive w1 = hv_exclusive w"
    by (metis hv_exclusive_ignores(1) hv_exclusive_ignores(5))
  with Raised assms show ?thesis by (simp add: handle_back_btn_def)
next
  case (Done w1)
  with hv_off_block_only_calls [of dev "w\<lparr>back_button_pressed := True\<rparr>"]
  have "w1 = w\<lparr>back_button_pressed := True, calls := calls w1\<rparr>" by simp
  then have "hv_exclusive w1 = hv_exclusive w" "consistent w1 = consistent w"
    by (metis hv_exclusive_ignores(1) hv_exclusive_ignores(5),
        metis consistent_ignores(1) consistent_ignores(5))
  with assms have "consistent (sol_off_block dev w1\<lparr>current_stage_index := current_stage_index (sol_off_block dev w1) - 1\<rparr>)"
    "hv_exclusive (sol_off_block dev w1\<lparr>current_stage_index := current_stage_index (sol_off_block dev w1) - 1\<rparr>)"
    by (simp_all add: sol_off_block_eq)
  from load_current_stage_exclusive [OF this] Done show ?thesis
    by (simp add: handle_back_btn_def Let_def)
qed

lemma nth_disable_others:
  "j < length bs \<Longrightarrow> disable_others k bs ! j = (if j = k then bs ! j else False)"
  by (simp add: disable_others_def nth_enumerate_eq)

lemma fst_nth_set_enabled:
  "i < length les \<Longrightarrow> fst (set_enabled k b les ! i) = (if i = k then b else fst (les ! i))"
  by (simp add: set_enabled_def nth_list_update)

lemma hv_exclusive_cong:
  "layout_filled w' = layout_filled w \<Longrightarrow> channel w' = channel w \<Longrightarrow>
   hv_exclusive w' = hv_exclusive (w\<lparr>line_edits := line_edits w', hv_buttons := hv_buttons w'\<rparr>)"
  by (simp add: hv_exclusive_def on_sol_screen_def field_enabled_def)

lemma handle_test_hv_btn_widgets:
  "layout_filled (state_of (handle_test_hv_btn k v dev w)) = layout_filled w"
  "channel w = Some ch \<Longrightarrow>
   line_edits (state_of (handle_test_hv_btn k v dev w)) =
     (if ch \<in> set hv_channels then set_enabled k True (line_edits w) else line_edits w)"
  "channel w = Some ch \<Longrightarrow>
   hv_buttons (state_of (handle_test_hv_btn k v dev w)) = disable_others k (hv_buttons w)"
  by (simp_all add: handle_test_hv_btn_def case_prod_beta hvps_call_def Let_def
        split: option.splits)

lemma handle_test_hv_btn_exclusive:
  assumes "hv_exclusive w" and "layout_filled w" and "\<not> on_sol_screen w"
    and "k < length (hv_buttons w)" and "hv_buttons w ! k"
  shows "hv_exclusive (state_of (handle_test_hv_btn k v dev w))"
proof (cases "channel w")
  case None
  with assms(1) show ?thesis by (simp add: handle_test_hv_btn_def)
next
  case (Some ch)
  have only_k: "i = k" if "field_enabled w i" for i
    using assms that by (auto simp add: hv_exclusive_def)
  define les where "les = (if ch \<in> set hv_channels then set_enabled k True (line_edits w)
                           else line_edits w)"
  have len: "length les = length (line_edits w)"
    by (simp add: les_def)
  have fields: "i = k" if "i < length les" "fst (les ! i)" for i
  proof (rule ccontr)
    assume "i \<noteq> k"
    with that len have "fst (line_edits w ! i)"
      by (simp add: les_def fst_nth_set_enabled split: if_splits)
    with that(1) len have "field_enabled w i" by (simp add: field_enabled_def)
    with only_k \<open>i \<noteq> k\<close> show False by blast
  qed
  have "hv_exclusive (w\<lparr>line_edits := les, hv_buttons := disable_others k (hv_buttons w)\<rparr>)"
    unfolding hv_exclusive_def
  proof (intro impI allI)
    fix i j
    assume "field_enabled (w\<lparr>line_edits := les, hv_buttons := disable_others k (hv_buttons w)\<rparr>) i \<and> j \<noteq> i"
    then have i: "i < length les" "fst (les ! i)" and ji: "j \<noteq> i"
      by (simp_all add: field_enabled_def)
    from fields [OF i] have ik: "i = k" .
    have "\<not> field_enabled (w\<lparr>line_edits := les, hv_buttons := disable_others k (hv_buttons w)\<rparr>) j"
    proof
      assume "field_enabled (w\<lparr>line_edits := les, hv_buttons := disable_others k (hv_buttons w)\<rparr>) j"
      then have "j < length les" "fst (les ! j)" by (simp_all add: field_enabled_def)
      from fields [OF this] ik ji show False by simp
    qed
    moreover have "j < length (hv_buttons (w\<lparr>line_edits := les, hv_buttons := disable_others k (hv_buttons w)\<rparr>)) \<longrightarrow>
        \<not> hv_buttons (w\<lparr>line_edits := les, hv_buttons := disable_others k (hv_buttons w)\<rparr>) ! j"
      using ji ik by (simp add: nth_disable_others)
    ultimately show "\<not> field_enabled (w\<lparr>line_edits := les, hv_buttons := disable_others k (hv_buttons w)\<rparr>) j \<and>
        (j < length (hv_buttons (w\<lparr>line_edits := les, hv_buttons := disable_others k (hv_buttons w)\<rparr>)) \<longrightarrow>
        \<not> hv_buttons (w\<lparr>line_edits := les, hv_buttons := disable_others k (hv_buttons w)\<rparr>) ! j)"
      by blast
  qed
  then show ?thesis
    using hv_exclusive_cong [of "state_of (handle_test_hv_btn k v dev w)" w] Some
    by (simp add: les_def handle_test_hv_btn_widgets)
qed

lemma handle_hv_entered_widgets:
  "layout_filled (state_of (handle_hv_entered k nxt dev w)) = layout_filled w"
  "line_edits (state_of (handle_hv_entered k nxt dev w)) = line_edits w \<and>
   hv_buttons (state_of (handle_hv_entered k nxt dev w)) = hv_buttons w \<or>
   line_edits (state_of (handle_hv_entered k nxt dev w)) = set_enabled k False (line_edits w)"
  by (auto simp add: handle_hv_entered_def hvps_call_def Let_def split: option.splits sum.splits)

lemma handle_hv_entered_exclusive:
  assumes "hv_exclusive w" and "layout_filled w" and "\<not> on_sol_screen w"
    and "field_enabled w k"
  shows "hv_exclusive (state_of (handle_hv_entered k nxt dev w))"
proof -
  define w' where "w' = state_of (handle_hv_entered k nxt dev w)"
  have frame: "layout_filled w' = layout_filled w" "channel w' = channel w"
    by (simp_all add: w'_def handle_hv_entered_widgets(1))
  from handle_hv_entered_widgets(2) [of k nxt dev w]
  consider "line_edits w' = line_edits w" "hv_buttons w' = hv_buttons w"
    | "line_edits w' = set_enabled k False (line_edits w)"
    unfolding w'_def by blast
  then have "hv_exclusive w'"
  proof cases
    case 1
    with hv_exclusive_cong [OF frame] assms(1) show ?thesis by simp
  next
    case 2
    have only_k: "i = k" if "field_enabled w i" for i
      using assms that by (auto simp add: hv_exclusive_def)
    have "\<not> field_enabled w' i" for i
    proof
      assume "field_enabled w' i"
      with 2 have "i < length (line_edits w)" "fst (set_enabled k False (line_edits w) ! i)"
        by (simp_all add: field_enabled_def)
      then have "i \<noteq> k \<and> field_enabled w i"
        by (simp add: fst_nth_set_enabled field_enabled_def split: if_splits)
      with only_k show False by blast
    qed
    then show ?thesis by (simp add: hv_exclusive_def)
  qed
  then show ?thesis by (simp add: w'_def)
qed

lemma on_sol_screen_exclusive: "on_sol_screen w \<Longrightarrow> hv_exclusive w"
  by (simp add: hv_exclusive_def)

lemma handle_disable_widgets:
  "layout_filled (state_of (handle_disable_hv_btn dev w)) = layout_filled w"
  "line_edits (state_of (handle_disable_hv_btn dev w)) = line_edits w"
  "hv_buttons (state_of (handle_disable_hv_btn dev w)) = hv_buttons w"
  "layout_filled (state_of (handle_disable_sol_btn dev w)) = layout_filled w"
  "line_edits (state_of (handle_disable_sol_btn dev w)) = line_edits w"
  "hv_buttons (state_of (handle_disable_sol_btn dev w)) = hv_buttons w"
  by (simp_all add: handle_disable_hv_btn_def handle_disable_sol_btn_def case_prod_beta
        hvps_call_def Let_def split: option.splits)

lemma handle_disable_exclusive:
  "hv_exclusive w \<Longrightarrow> hv_exclusive (state_of (handle_disable_hv_btn dev w))"
  "hv_exclusive w \<Longrightarrow> hv_exclusive (state_of (handle_disable_sol_btn dev w))"
  using hv_exclusive_cong [of "state_of (handle_disable_hv_btn dev w)" w]
    hv_exclusive_cong [of "state_of (handle_disable_sol_btn dev w)" w]
  by (simp_all add: handle_disable_widgets)

lemma on_sol_screen_kept:
  "on_sol_screen (state_of (handle_test_sol_current_btn k v dev w)) = on_sol_screen w"
  "on_sol_screen (state_of (handle_current_entered k nxt dev w)) = on_sol_screen w"
  by (simp_all add: on_sol_screen_def)

lemma deliver_Press_test_exclusive:
  assumes "hv_exclusive w" and "layout_filled w"
  shows "hv_exclusive (state_of (deliver dev (Press_test k) w))"
proof (cases "k < length (test_buttons w) \<and> test_buttons w ! k")
  case False
  with assms(1) show ?thesis by auto
next
  case pressed: True
  show ?thesis
  proof (cases "on_sol_screen w")
    case True
    show ?thesis
    proof (cases "k < 3")
      case False
      with pressed True assms(1) show ?thesis by simp
    next
      case k: True
      from nth_sol_test_handlers [OF k]
      obtain v where "sol_test_handlers ! k = handle_test_sol_current_btn k v" by blast
      with pressed True k show ?thesis
        by (simp add: on_sol_screen_exclusive on_sol_screen_kept)
    qed
  next
    case False
    show ?thesis
    proof (cases "k < 6")
      case k: False
      with pressed False assms(1) show ?thesis by simp
    next
      case k: True
      from nth_hv_test_handlers [OF k]
      obtain v where "hv_test_handlers ! k = handle_test_hv_btn k v" by blast
      moreover from pressed False have "k < length (hv_buttons w)" "hv_buttons w ! k"
        by (simp_all add: test_buttons_def)
      ultimately show ?thesis
        using pressed False k handle_test_hv_btn_exclusive [OF assms False, of k v dev]
        by simp
    qed
  qed
qed

lemma deliver_Return_pressed_exclusive:
  assumes "hv_exclusive w" and "layout_filled w"
  shows "hv_exclusive (state_of (deliver dev (Return_pressed k) w))"
proof (cases "field_enabled w k")
  case False
  with assms(1) show ?thesis by simp
next
  case armed: True
  show ?thesis
  proof (cases "on_sol_screen w")
    case True
    show ?thesis
    proof (cases "k < 3")
      case False
      with armed True assms(1) show ?thesis by simp
    next
      case k: True
      from nth_sol_entered_handlers [OF k]
      obtain nxt where "sol_entered_handlers ! k = handle_current_entered k nxt" by blast
      with armed True k show ?thesis
        by (simp add: on_sol_screen_exclusive on_sol_screen_kept)
    qed
  next
    case False
    show ?thesis
    proof (cases "k < 6")
      case k: False
      with armed False assms(1) show ?thesis by simp
    next
      case k: True
      from nth_hv_entered_handlers [OF k]
      obtain nxt where "hv_entered_handlers ! k = handle_hv_entered k nxt" by blast
      then show ?thesis
        using armed False k handle_hv_entered_exclusive [OF assms False armed, of nxt dev]
        by simp
    qed
  qed
qed

lemma deliver_Type_text_exclusive:
  assumes "hv_exclusive w"
  shows "hv_exclusive (state_of (deliver dev (Type_text k s) w))"
proof (cases "field_enabled w k")
  case False
  with assms show ?thesis by simp
next
  case True
  have "field_enabled (w\<lparr>line_edits := (line_edits w)[k := (True, s)]\<rparr>) i = field_enabled w i" for i
    using True by (cases "i = k") (simp_all add: field_enabled_def)
  with assms have "hv_exclusive (w\<lparr>line_edits := (line_edits w)[k := (True, s)]\<rparr>)"
    by (simp add: hv_exclusive_def on_sol_screen_def)
  with True show ?thesis by simp
qed

lemma deliver_exclusive:
  assumes "consistent w" and "hv_exclusive w" and "layout_filled w"
  shows "hv_exclusive (state_of (deliver dev ev w))"
proof (cases ev)
  case (Press_test k)
  with assms show ?thesis by (simp only: deliver_Press_test_exclusive)
next
  case (Type_text k s)
  with assms show ?thesis by (simp only: deliver_Type_text_exclusive)
next
  case (Return_pressed k)
  with assms show ?thesis by (simp only: deliver_Return_pressed_exclusive)
next
  case Press_disable
  then show ?thesis using assms by (simp add: handle_disable_exclusive)
next
  case Press_back
  then show ?thesis using assms by (simp add: handle_back_btn_exclusive)
next
  case Press_next
  then show ?thesis using assms by (simp add: handle_next_btn_exclusive)
next
  case Close_window
  then show ?thesis using assms by (simp add: closeEvent_exclusive)
qed

lemma fire_exclusive:
  "consistent w \<Longrightarrow> hv_exclusive w \<Longrightarrow> hv_exclusive (state_of (fire dev ev w))"
  by (simp add: fire_def deliver_exclusive closeEvent_exclusive)

lemma append_stage_exclusive [simp]:
  "hv_exclusive (append_stage ch st w) = hv_exclusive w"
  by (subst append_stage_only) simp

lemma test_plan_exclusive:
  "consistent w \<Longrightarrow> hv_exclusive w \<Longrightarrow> hv_exclusive (state_of (test_plan dev w))"
  by (simp add: test_plan_def Let_def load_current_stage_exclusive)

lemma init_exclusive: "hv_exclusive (state_of (init dev log occ))"
  unfolding init_def
  by (rule test_plan_exclusive)
     (simp_all add: consistent_def well_shaped_not_installed hv_exclusive_def)

lemma session_exclusive: "hv_exclusive (session dev log occ evs)"
proof (induction evs rule: rev_induct)
  case Nil
  then show ?case by (simp add: session_def init_exclusive)
next
  case (snoc ev evs)
  then show ?case
    by (simp add: session_snoc fire_exclusive session_consistent)
qed

lemma filter_at_most_one:
  "distinct xs \<Longrightarrow> (\<And>i j. P i \<Longrightarrow> P j \<Longrightarrow> i = j) \<Longrightarrow> length (filter P xs) \<le> 1"
proof (induction xs)
  case Nil
  then show ?case by simp
next
  case (Cons x xs)
  show ?case
  proof (cases "P x")
    case True
    with Cons.prems have "filter P xs = []"
      by (auto simp add: filter_empty_conv)
    with True show ?thesis by simp
  next
    case False
    with Cons show ?thesis by simp
  qed
qed

text \<open>
  On a voltage screen at most one test point is armed, whatever the operator has done.
\<close>

lemma one_armed_point_on_voltage_screen:
  assumes "layout_filled (session dev log occ evs)"
    and "\<not> on_sol_screen (session dev log occ evs)"
  shows "length (armed (session dev log occ evs)) \<le> 1"
proof -
  from session_exclusive [of dev log occ evs] assms
  have "\<And>i j. field_enabled (session dev log occ evs) i \<Longrightarrow>
          field_enabled (session dev log occ evs) j \<Longrightarrow> i = j"
    by (auto simp add: hv_exclusive_def)
  then show ?thesis
    unfolding armed_def by (intro filter_at_most_one) simp_all
qed

text \<open>
  C2, evaluated. The solenoid screen has no such guarantee. The operator presses its
  first test button and then the second: both buttons were enabled, and afterwards
  the first and the second test point are armed together. On the beam screen the same
  two presses leave the first point armed alone, the second button being disabled.
\<close>

theorem two_solenoid_points_armed:
  "armed (session bench_hvps [] [''SL''] [Press_test 0]) = [0] \<and>
   current_buttons (session bench_hvps [] [''SL''] [Press_test 0]) = [True, True, True] \<and>
   armed (session bench_hvps [] [''SL''] [Press_test 0, Press_test 1]) = [0, 1] \<and>
   hv_buttons (session bench_hvps [] [''BM''] [Press_test 0]) =
     [True, False, False, False, False, False] \<and>
   armed (session bench_hvps [] [''BM''] [Press_test 0, Press_test 1]) = [0]"
  by code_simp

end
